theory Spec2Isabelle
  imports Main
begin

section \<open>SmartInstructionSender: the data model\<close>

text \<open>
  The embedding follows \<^verbatim>\<open>src/smartInstructionSender.ts\<close>. The class sends an ordered
  list of instruction sets as one transaction each, re-anchoring (fetching a new slot and
  blockhash, rebuilding and re-signing the rest of the batch) when the slot has moved by
  150 or more.

  The collaborators (the connection, the wallet, the helper \<^verbatim>\<open>sendSignedTransaction\<close>) are
  parameters: each is a function of the number of calls made so far, so a run is
  deterministic and can be evaluated. Every call of a collaborator and of a callback is
  appended to a trace. The model covers the runs in which the collaborators and the
  callbacks return; a rejected promise of a collaborator, a throw of \<^verbatim>\<open>partialSign\<close>, the
  15 second pause before each submission and the length of the back-off timers of the
  retry library are not part of it.

  Two behaviours of the libraries are part of it. \<^verbatim>\<open>Transaction.add\<close> of the web3 library
  throws \<^verbatim>\<open>Error('No instructions')\<close> when it is given no instruction. The library
  async-retry calls the \<^verbatim>\<open>onRetry\<close> hook without waiting for its promise: the hook runs
  beside the timer of the next attempt, and a rejection of the hook is handled by nobody.
  Whether a hook has finished when the next attempt submits is a parameter of the run,
  \<open>hookInTime\<close>.
\<close>

datatype TransactionInstruction = TransactionInstruction nat

type_synonym PublicKey = string

datatype Signer = Signer PublicKey

text \<open>\<^verbatim>\<open>InstructionSet\<close> of \<^verbatim>\<open>types.ts\<close>.\<close>

record InstructionSet =
  signers :: "Signer list"
  instructions :: "TransactionInstruction list"

text \<open>
  A web3 \<^verbatim>\<open>Transaction\<close>, as far as the sender touches it: the constructor's two fields,
  the instructions added, and the signatures attached (by \<^verbatim>\<open>partialSign\<close> and by the wallet).
\<close>

record Transaction =
  feePayer :: "PublicKey option"
  recentBlockhash :: string
  txInstructions :: "TransactionInstruction list"
  signatures :: "Signer list"

text \<open>
  \<^verbatim>\<open>WalletSigner\<close>. \<^verbatim>\<open>signAllTransactions\<close> receives transaction objects and returns
  transactions: \<open>signInPlace\<close> is what the call does to each object it was handed,
  \<open>signReturned\<close> is the transaction it returns for it. \<^verbatim>\<open>send\<close> keeps the returned list
  of the first call; the rebuild drops the returned list and keeps the objects it passed.
\<close>

record WalletSigner =
  publicKey :: "PublicKey option"
  signInPlace :: "Transaction \<Rightarrow> Transaction"
  signReturned :: "Transaction \<Rightarrow> Transaction"

text \<open>
  Modelled from the spec: the result of \<^verbatim>\<open>sendSignedTransaction\<close> of
  \<^verbatim>\<open>tools/connectionTools\<close>, which is not among the sources. The spec gives
  \<^verbatim>\<open>{ error?: {type: "timeout"|"misc-error"|other}, slot?: integer }\<close>: either the slot at
  acceptance, or an error with its \<^verbatim>\<open>type\<close>.
\<close>

datatype SendResult = Accepted nat | Failed string

text \<open>
  The connection, with \<^verbatim>\<open>sendSignedTransaction\<close> beside its two methods. The first
  argument of each is the number of earlier calls of that collaborator. The last field is
  not a method but the timing of the run: \<open>hookInTime i n\<close> says whether the \<^verbatim>\<open>onRetry\<close>
  hook that is started after attempt \<open>n\<close> at index \<open>i\<close> has finished when the next attempt
  submits its transaction.
\<close>

record Connection =
  getSlot :: "nat \<Rightarrow> nat"
  getLatestBlockhash :: "nat \<Rightarrow> string"
  sendSignedTransaction :: "nat \<Rightarrow> Transaction option \<Rightarrow> SendResult"
  hookInTime :: "nat \<Rightarrow> nat \<Rightarrow> bool"

record SmartInstructionSenderConfiguration =
  maxSigningAttempts :: nat
  abortOnFailure :: bool
  commitment :: string

text \<open>
  What \<^verbatim>\<open>send\<close> can throw or hand to the failure callback: the wallet adapter's error, a
  plain \<^verbatim>\<open>Error\<close> with its message, or the \<^verbatim>\<open>err\<close> object of a send result with its type.
\<close>

datatype Error = WalletNotConnectedError | Error string | ResultErr string

text \<open>
  The trace. \<open>EvSendSignedTransaction\<close> carries the loop index at which the call was made
  and the reply; the other events carry the arguments and replies of the source.
\<close>

datatype Event =
    EvGetSlot nat
  | EvGetLatestBlockhash string
  | EvSignAllTransactions "Transaction list"
  | EvSendSignedTransaction nat "Transaction option" SendResult
  | EvProgress nat
  | EvReSign nat nat
  | EvFailure Error nat nat "InstructionSet option"

text \<open>
  The object: the fields of the class. A callback field is either registered or not; a
  registered callback shows in the trace.
\<close>

record SmartInstructionSender =
  connection :: Connection
  wallet :: WalletSigner
  instructionSets :: "InstructionSet list option"
  configuration :: SmartInstructionSenderConfiguration
  onProgressCallback :: bool
  onReSignCallback :: bool
  onFailureCallback :: bool

text \<open>
  The variables of \<^verbatim>\<open>send\<close> and of its closures (\<open>tx\<close> and \<open>retryNumber\<close> are reset
  for every index), the call counters of the collaborators and the trace. \<open>pendingHook\<close>
  holds the arguments of a call of \<^verbatim>\<open>onRetry\<close> that has been started and has not finished.
\<close>

record State =
  slot :: nat
  currentBlock :: string
  signedTXs :: "Transaction list"
  successfulItems :: nat
  tx :: "Transaction option"
  retryNumber :: nat
  slotCalls :: nat
  blockhashCalls :: nat
  sendCalls :: nat
  pendingHook :: "(Error \<times> nat) option"
  trace :: "Event list"

definition initialState :: State where
  "initialState =
     \<lparr>slot = 0, currentBlock = [], signedTXs = [], successfulItems = 0, tx = None,
      retryNumber = 0, slotCalls = 0, blockhashCalls = 0, sendCalls = 0, pendingHook = None,
      trace = []\<rparr>"

definition emit :: "Event list \<Rightarrow> State \<Rightarrow> State" where
  "emit evs st = st\<lparr>trace := trace st @ evs\<rparr>"

section \<open>The operations\<close>

text \<open>\<^verbatim>\<open>connection.getSlot(commitment)\<close>.\<close>

definition callGetSlot :: "Connection \<Rightarrow> State \<Rightarrow> nat \<times> State" where
  "callGetSlot c st =
     (let s = getSlot c (slotCalls st)
      in (s, emit [EvGetSlot s] (st\<lparr>slotCalls := Suc (slotCalls st)\<rparr>)))"

definition callGetLatestBlockhash :: "Connection \<Rightarrow> State \<Rightarrow> string \<times> State" where
  "callGetLatestBlockhash c st =
     (let b = getLatestBlockhash c (blockhashCalls st)
      in (b, emit [EvGetLatestBlockhash b] (st\<lparr>blockhashCalls := Suc (blockhashCalls st)\<rparr>)))"

text \<open>\<^verbatim>\<open>getSlotAndCurrentBlockHash\<close>: both requests of one \<^verbatim>\<open>Promise.all\<close>.\<close>

definition getSlotAndCurrentBlockHash :: "Connection \<Rightarrow> State \<Rightarrow> (nat \<times> string) \<times> State" where
  "getSlotAndCurrentBlockHash c st =
     (case callGetSlot c st of (s, st1) \<Rightarrow>
      case callGetLatestBlockhash c st1 of (b, st2) \<Rightarrow> ((s, b), st2))"

text \<open>\<^verbatim>\<open>tx.partialSign(...signers)\<close>: the signers' signatures are attached.\<close>

definition partialSign :: "Signer list \<Rightarrow> Transaction \<Rightarrow> Transaction" where
  "partialSign sgs t = t\<lparr>signatures := signatures t @ sgs\<rparr>"

text \<open>
  The transaction built from one instruction set, as both \<^verbatim>\<open>send\<close> and the rebuild do:
  \<^verbatim>\<open>new Transaction({feePayer, recentBlockhash}).add(...instructions)\<close>, then
  \<^verbatim>\<open>partialSign\<close> when the set has signers. \<^verbatim>\<open>add\<close> throws when it is given no
  instruction; \<open>transactionOf\<close> is the transaction that results when it does not throw.
\<close>

definition transactionOf :: "PublicKey option \<Rightarrow> string \<Rightarrow> InstructionSet \<Rightarrow> Transaction" where
  "transactionOf pk blockhash iset =
     (let t = \<lparr>feePayer = pk, recentBlockhash = blockhash,
                txInstructions = [] @ instructions iset, signatures = []\<rparr>
      in if length (signers iset) \<noteq> 0 then partialSign (signers iset) t else t)"

definition buildTransaction ::
  "PublicKey option \<Rightarrow> string \<Rightarrow> InstructionSet \<Rightarrow> Error + Transaction" where
  "buildTransaction pk blockhash iset =
     (if length (instructions iset) = 0 then Inl (Error ''No instructions'')
      else Inr (transactionOf pk blockhash iset))"

text \<open>
  The \<^verbatim>\<open>map\<close> of \<^verbatim>\<open>send\<close> over the instruction sets that passed its \<^verbatim>\<open>filter\<close>: the
  transactions in order, or the error of the first one that cannot be built.
\<close>

fun buildAll ::
  "PublicKey option \<Rightarrow> string \<Rightarrow> InstructionSet list \<Rightarrow> Error + Transaction list" where
  "buildAll pk blockhash [] = Inr []"
| "buildAll pk blockhash (iset # isets) =
     (case buildTransaction pk blockhash iset of
        Inl error \<Rightarrow> Inl error
      | Inr t \<Rightarrow>
          (case buildAll pk blockhash isets of
             Inl error \<Rightarrow> Inl error
           | Inr ts \<Rightarrow> Inr (t # ts)))"

text \<open>
  \<^verbatim>\<open>signedTXs[j] = v\<close>. A write at \<open>j = length xs\<close> appends. The rebuild loop starts at an
  index that is at most the length and goes up by one, so it never writes further out.
\<close>

definition arraySet :: "'a list \<Rightarrow> nat \<Rightarrow> 'a \<Rightarrow> 'a list" where
  "arraySet xs j v = (if j < length xs then xs[j := v] else xs @ [v])"

text \<open>\<^verbatim>\<open>xs[k]\<close> for a possibly negative \<open>k\<close>: \<^verbatim>\<open>undefined\<close> out of range.\<close>

definition arrayGet :: "'a list \<Rightarrow> int \<Rightarrow> 'a option" where
  "arrayGet xs k = (if 0 \<le> k \<and> nat k < length xs then Some (xs ! nat k) else None)"

text \<open>
  The \<^verbatim>\<open>for\<close> loop of \<^verbatim>\<open>signAndRebuildTransactionsFromInstructionSets\<close>. It stops at the
  first instruction set without instructions, where \<^verbatim>\<open>add\<close> throws before the array is
  written: the result is the error, if any, and the array as the loop left it.
\<close>

function rebuildLoop ::
  "PublicKey option \<Rightarrow> InstructionSet list \<Rightarrow> string \<Rightarrow> nat \<Rightarrow> Transaction list
     \<Rightarrow> Error option \<times> Transaction list"
where
  "rebuildLoop pk sets blockhash j txs =
     (if j < length sets
      then (case buildTransaction pk blockhash (sets ! j) of
              Inl error \<Rightarrow> (Some error, txs)
            | Inr t \<Rightarrow> rebuildLoop pk sets blockhash (Suc j) (arraySet txs j t))
      else (None, txs))"
  by pat_completeness auto
termination
  by (relation "measure (\<lambda>(pk, sets, blockhash, j, txs). length sets - j)") auto

text \<open>
  \<^verbatim>\<open>signAndRebuildTransactionsFromInstructionSets(signedTXs, index, blockhash, attempt)\<close>.
  The array is the \<open>signedTXs\<close> of the state, and \<open>sets\<close> is \<^verbatim>\<open>this.instructionSets\<close>,
  the list as it was supplied, instruction sets without instructions included: the loop
  reads it with the index of the array. When the loop throws, the callback has been
  called, the array is rebuilt up to the instruction set that has no instructions, and the
  wallet is not called. Otherwise the wallet is handed the slice from \<open>index\<close>; its
  returned list is dropped, so the array holds the objects of the slice as the wallet left
  them, and the result is the first element of the slice.
\<close>

definition signAndRebuildTransactionsFromInstructionSets ::
  "SmartInstructionSender \<Rightarrow> InstructionSet list \<Rightarrow> nat \<Rightarrow> string \<Rightarrow> nat \<Rightarrow> State
     \<Rightarrow> (Error + Transaction option) \<times> State"
where
  "signAndRebuildTransactionsFromInstructionSets s sets index blockhash attempt st =
     (let st1 = (if onReSignCallback s then emit [EvReSign attempt index] st else st)
      in case rebuildLoop (publicKey (wallet s)) sets blockhash index (signedTXs st1) of
           (Some error, txs) \<Rightarrow> (Inl error, st1\<lparr>signedTXs := txs\<rparr>)
         | (None, rebuilt) \<Rightarrow>
             (let slice = drop index rebuilt;
                  st2 = emit [EvSignAllTransactions slice]
                          (st1\<lparr>signedTXs := take index rebuilt @ map (signInPlace (wallet s)) slice\<rparr>)
              in (Inr (arrayGet (drop index (signedTXs st2)) 0), st2)))"

text \<open>
  The \<^verbatim>\<open>onRetry\<close> hook, with the error thrown and the number of the failed attempt. When
  the rebuild throws, the promise of the hook is rejected and nobody handles it: slot and
  blockhash have been assigned, \<open>tx\<close> has not, and the run goes on (as it does in a
  browser, where an unhandled rejection is only reported).
\<close>

definition onRetry ::
  "SmartInstructionSender \<Rightarrow> InstructionSet list \<Rightarrow> nat \<Rightarrow> Error \<Rightarrow> nat \<Rightarrow> State \<Rightarrow> State"
where
  "onRetry s sets i error attempt st =
     (if error = ResultErr ''timeout''
      then (case callGetSlot (connection s) st of
              (slotResult, st1) \<Rightarrow>
                if slotResult \<ge> slot st1 + 150
                then (case getSlotAndCurrentBlockHash (connection s) st1 of
                        ((newSlot, newCurrentBlock), st2) \<Rightarrow>
                          (let st3 = st2\<lparr>slot := newSlot, currentBlock := newCurrentBlock\<rparr>
                           in case signAndRebuildTransactionsFromInstructionSets
                                     s sets i newCurrentBlock attempt st3 of
                                (Inl rejection, st4) \<Rightarrow> st4
                              | (Inr t, st4) \<Rightarrow> st4\<lparr>tx := t\<rparr>))
                else st1)
      else st)"

text \<open>
  A hook that was not in time finishes while the next attempt waits for the reply to its
  submission: the submission has gone out with \<open>tx\<close> as it was.
\<close>

definition landHook ::
  "SmartInstructionSender \<Rightarrow> InstructionSet list \<Rightarrow> nat \<Rightarrow> State \<Rightarrow> State"
where
  "landHook s sets i st =
     (case pendingHook st of
        None \<Rightarrow> st
      | Some (error, attempt) \<Rightarrow> onRetry s sets i error attempt (st\<lparr>pendingHook := None\<rparr>))"

text \<open>
  One run of the function handed to \<^verbatim>\<open>retry\<close>: it resolves, or it calls \<^verbatim>\<open>bail\<close> and
  returns, or it throws. It throws the \<^verbatim>\<open>err\<close> of a timeout, and it throws what the
  rebuild after an accepted submission throws.
\<close>

datatype Attempt = Resolved | Bailed Error | Thrown Error

definition attemptFn ::
  "SmartInstructionSender \<Rightarrow> InstructionSet list \<Rightarrow> nat \<Rightarrow> State \<Rightarrow> Attempt \<times> State"
where
  "attemptFn s sets i st0 =
     (let st = st0\<lparr>retryNumber := Suc (retryNumber st0)\<rparr>;
          result = sendSignedTransaction (connection s) (sendCalls st) (tx st);
          sent = emit [EvSendSignedTransaction i (tx st) result] (st\<lparr>sendCalls := Suc (sendCalls st)\<rparr>);
          st1 = landHook s sets i sent
      in case result of
           Failed ty \<Rightarrow>
             if ty = ''timeout'' \<and> retryNumber st1 \<ge> maxSigningAttempts (configuration s)
             then (Bailed (Error ''MAX_RESIGN_ATTEMPTS_REACHED''), st1)
             else if ty = ''timeout'' then (Thrown (ResultErr ty), st1)
             else if ty = ''misc-error'' then (Bailed (ResultErr ty), st1)
             else (Bailed (ResultErr ty), st1)
         | Accepted resultSlot \<Rightarrow>
             (let st2 = (if onProgressCallback s then emit [EvProgress i] st1 else st1);
                  st3 = st2\<lparr>successfulItems := Suc (successfulItems st2)\<rparr>
              in if resultSlot \<ge> slot st3 + 150
                 then (let nextTXs = drop (i + 1) (signedTXs st3)
                       in if length nextTXs \<noteq> 0
                          then (case getSlotAndCurrentBlockHash (connection s) st3 of
                                  ((newSlot, newCurrentBlock), st4) \<Rightarrow>
                                    (let st5 = st4\<lparr>slot := newSlot, currentBlock := newCurrentBlock\<rparr>
                                     in case signAndRebuildTransactionsFromInstructionSets
                                               s sets (i + 1) newCurrentBlock 0 st5 of
                                          (Inl error, st6) \<Rightarrow> (Thrown error, st6)
                                        | (Inr t, st6) \<Rightarrow> (Resolved, st6)))
                          else (Resolved, st3))
                 else (Resolved, st3)))"

text \<open>
  \<^verbatim>\<open>mainError\<close> of the library retry, with which async-retry rejects when no timeout is
  left: of the errors thrown, the last one whose message has been seen at least as often
  as any message before it. A plain \<^verbatim>\<open>Error\<close> has its message; the \<^verbatim>\<open>err\<close> of a send
  result is taken to have none.
\<close>

definition messageOf :: "Error \<Rightarrow> string option" where
  "messageOf error =
     (case error of WalletNotConnectedError \<Rightarrow> Some [] | Error m \<Rightarrow> Some m | ResultErr ty \<Rightarrow> None)"

fun mainErrorLoop ::
  "Error list \<Rightarrow> (string option \<Rightarrow> nat) \<Rightarrow> Error option \<Rightarrow> nat \<Rightarrow> Error option" where
  "mainErrorLoop [] counts mainErr mainErrCount = mainErr"
| "mainErrorLoop (error # errors) counts mainErr mainErrCount =
     (let message = messageOf error;
          count = counts message + 1
      in if count \<ge> mainErrCount
         then mainErrorLoop errors (counts(message := count)) (Some error) count
         else mainErrorLoop errors (counts(message := count)) mainErr mainErrCount)"

definition mainError :: "Error list \<Rightarrow> Error option" where
  "mainError errors = mainErrorLoop errors (\<lambda>message. 0) None 0"

text \<open>
  The attempts of \<^verbatim>\<open>retry(fn, {retries, onRetry})\<close> of the library async-retry, from
  attempt \<open>num\<close> on, with the timeouts left and the errors thrown so far. A \<^verbatim>\<open>bail\<close>
  rejects at once. A throw while a timeout is left starts the timer of the next attempt
  and calls \<open>onRetry\<close>, whose promise is dropped: the hook has run when the next attempt
  submits, or it is pending then. A throw when no timeout is left rejects with
  \<open>mainError\<close>, which is one of the errors thrown. The result is the error of the
  rejection, if any.
\<close>

fun retryLoop ::
  "SmartInstructionSender \<Rightarrow> InstructionSet list \<Rightarrow> nat \<Rightarrow> nat \<Rightarrow> nat \<Rightarrow> Error list \<Rightarrow> State
     \<Rightarrow> Error option \<times> State"
where
  "retryLoop s sets i 0 num errors st =
     (case attemptFn s sets i st of
        (Resolved, st1) \<Rightarrow> (None, st1)
      | (Bailed e, st1) \<Rightarrow> (Some e, st1)
      | (Thrown e, st1) \<Rightarrow> (mainError (errors @ [e]), st1))"
| "retryLoop s sets i (Suc timeouts) num errors st =
     (case attemptFn s sets i st of
        (Resolved, st1) \<Rightarrow> (None, st1)
      | (Bailed e, st1) \<Rightarrow> (Some e, st1)
      | (Thrown e, st1) \<Rightarrow>
          retryLoop s sets i timeouts (Suc num) (errors @ [e])
            (if hookInTime (connection s) i num then onRetry s sets i e num st1
             else st1\<lparr>pendingHook := Some (e, num)\<rparr>))"

text \<open>\<^verbatim>\<open>retry(fn, {retries, onRetry})\<close>: no error has been thrown yet.\<close>

definition retry ::
  "SmartInstructionSender \<Rightarrow> InstructionSet list \<Rightarrow> nat \<Rightarrow> nat \<Rightarrow> nat \<Rightarrow> State
     \<Rightarrow> Error option \<times> State"
where
  "retry s sets i retries num st = retryLoop s sets i retries num [] st"

text \<open>The \<^verbatim>\<open>catch\<close> block, up to the test of \<^verbatim>\<open>abortOnFailure\<close>.\<close>

definition catchError ::
  "SmartInstructionSender \<Rightarrow> InstructionSet list \<Rightarrow> nat \<Rightarrow> Error \<Rightarrow> State \<Rightarrow> State"
where
  "catchError s sets i error st =
     (if onFailureCallback s
      then emit [EvFailure error i (successfulItems st)
                   (arrayGet sets (int (successfulItems st) - 1))] st
      else st)"

text \<open>
  The loop of \<^verbatim>\<open>send\<close> reads the length of the array in every round, and the rebuild
  can make the array longer. It never gets longer than the list of instruction sets: the
  termination of the loop rests on the lemmas that follow.
\<close>

declare rebuildLoop.simps [simp del]

lemma length_arraySet:
  "length (arraySet xs j v) = (if j < length xs then length xs else Suc (length xs))"
  by (simp add: arraySet_def)

lemma length_rebuildLoop_le:
  "length (snd (rebuildLoop pk sets bh j txs)) \<le> max (length txs) (length sets)"
proof (induction pk sets bh j txs rule: rebuildLoop.induct)
  case (1 pk sets bh j txs)
  show ?case
  proof (cases "j < length sets")
    case True
    show ?thesis
    proof (cases "buildTransaction pk bh (sets ! j)")
      case (Inl e)
      with True show ?thesis by (subst rebuildLoop.simps) simp
    next
      case (Inr t)
      from 1 [OF True Inr] True Inr show ?thesis
        by (subst rebuildLoop.simps) (simp add: length_arraySet split: if_splits)
    qed
  next
    case False
    then show ?thesis by (subst rebuildLoop.simps) simp
  qed
qed

lemma length_signAndRebuild_le:
  "length (signedTXs (snd (signAndRebuildTransactionsFromInstructionSets s sets k bh a st)))
     \<le> max (length (signedTXs st)) (length sets)"
proof -
  have "length (snd (rebuildLoop (publicKey (wallet s)) sets bh k (signedTXs st)))
          \<le> max (length (signedTXs st)) (length sets)"
    by (rule length_rebuildLoop_le)
  then show ?thesis
    by (auto simp: signAndRebuildTransactionsFromInstructionSets_def Let_def emit_def
        split: prod.split option.split)
qed

lemma signedTXs_callGetSlot [simp]:
  "signedTXs (snd (callGetSlot c st)) = signedTXs st"
  by (simp add: callGetSlot_def emit_def Let_def)

lemma signedTXs_getSlotAndCurrentBlockHash [simp]:
  "signedTXs (snd (getSlotAndCurrentBlockHash c st)) = signedTXs st"
  by (simp add: getSlotAndCurrentBlockHash_def callGetSlot_def callGetLatestBlockhash_def
      emit_def Let_def)

lemma length_onRetry_le:
  "length (signedTXs (onRetry s sets i e a st))
     \<le> max (length (signedTXs st)) (length sets)"
  unfolding onRetry_def Let_def split_beta
  by (auto split: sum.split intro!: order_trans [OF length_signAndRebuild_le])

lemma length_landHook_le:
  "length (signedTXs (landHook s sets i st))
     \<le> max (length (signedTXs st)) (length sets)"
  using length_onRetry_le [of s sets i _ _ "st\<lparr>pendingHook := None\<rparr>"]
  by (auto simp: landHook_def split: option.split)

lemma length_attemptFn_le:
  "length (signedTXs (snd (attemptFn s sets i st)))
     \<le> max (length (signedTXs st)) (length sets)"
proof -
  let ?sent = "landHook s sets i
      (emit [EvSendSignedTransaction i (tx st)
               (sendSignedTransaction (connection s) (sendCalls st) (tx st))]
         (st\<lparr>retryNumber := Suc (retryNumber st), sendCalls := Suc (sendCalls st)\<rparr>))"
  have l: "length (signedTXs ?sent) \<le> max (length (signedTXs st)) (length sets)"
    using length_landHook_le [of s sets i
        "emit [EvSendSignedTransaction i (tx st)
               (sendSignedTransaction (connection s) (sendCalls st) (tx st))]
         (st\<lparr>retryNumber := Suc (retryNumber st), sendCalls := Suc (sendCalls st)\<rparr>)"]
    by (simp add: emit_def)
  have *: "length (signedTXs (snd (signAndRebuildTransactionsFromInstructionSets s sets (Suc i) bh 0 st')))
             \<le> max (length (signedTXs st)) (length sets)"
    if "signedTXs st' = signedTXs ?sent" for bh st'
    using length_signAndRebuild_le [of s sets "Suc i" bh 0 st'] that l by simp
  show ?thesis
    unfolding attemptFn_def Let_def split_beta
    using l
    by (auto simp: emit_def split: SendResult.split sum.split intro!: *)
qed

lemma length_retryLoop_le:
  "length (signedTXs (snd (retryLoop s sets i t num errs st)))
     \<le> max (length (signedTXs st)) (length sets)"
proof (induction t arbitrary: num errs st)
  case 0
  show ?case
    using length_attemptFn_le [of s sets i st]
    by (auto split: prod.split Attempt.split)
next
  case (Suc t)
  show ?case
  proof (cases "attemptFn s sets i st")
    case (Pair a st1)
    have l1: "length (signedTXs st1) \<le> max (length (signedTXs st)) (length sets)"
      using length_attemptFn_le [of s sets i st] Pair by simp
    show ?thesis
    proof (cases a)
      case (Thrown e)
      let ?st2 = "if hookInTime (connection s) i num then onRetry s sets i e num st1
                  else st1\<lparr>pendingHook := Some (e, num)\<rparr>"
      have "length (signedTXs (snd (retryLoop s sets i t (Suc num) (errs @ [e]) ?st2)))
              \<le> max (length (signedTXs ?st2)) (length sets)"
        by (rule Suc.IH)
      also have "\<dots> \<le> max (length (signedTXs st)) (length sets)"
        using length_onRetry_le [of s sets i e num st1] l1 by auto
      finally show ?thesis using Pair Thrown by simp
    qed (use Pair l1 in simp_all)
  qed
qed

lemma length_retry_le:
  "length (signedTXs (snd (retry s sets i t num st)))
     \<le> max (length (signedTXs st)) (length sets)"
  unfolding retry_def by (rule length_retryLoop_le)

lemma signedTXs_catchError [simp]:
  "signedTXs (catchError s sets i e st) = signedTXs st"
  by (simp add: catchError_def emit_def)

lemma retry_decreases:
  assumes "(x, y) = retry s sets i t num st0" and "length (signedTXs st0) = length (signedTXs st)"
    and "i < length (signedTXs st)"
  shows "max (length (signedTXs y)) (length sets) - Suc i
           < max (length (signedTXs st)) (length sets) - i"
proof -
  have "length (signedTXs y) \<le> max (length (signedTXs st)) (length sets)"
    using length_retry_le [of s sets i t num st0] assms(1) [symmetric] assms(2) by simp
  with assms(3) show ?thesis by simp
qed

text \<open>
  The \<^verbatim>\<open>for\<close> loop of \<^verbatim>\<open>send\<close> from index \<open>i\<close>: \<open>tx\<close> and \<open>retryNumber\<close> are set, \<open>retry\<close>
  runs with \<open>maxSigningAttempts\<close> retries, starting with attempt 1; a rejection goes to
  the \<^verbatim>\<open>catch\<close> block, which leaves the loop when \<open>abortOnFailure\<close> is set.
\<close>

function forLoop ::
  "SmartInstructionSender \<Rightarrow> InstructionSet list \<Rightarrow> nat \<Rightarrow> State \<Rightarrow> State"
where
  "forLoop s sets i st =
     (if i < length (signedTXs st)
      then (case retry s sets i (maxSigningAttempts (configuration s)) 1
                   (st\<lparr>tx := Some (signedTXs st ! i), retryNumber := 0\<rparr>) of
              (None, st1) \<Rightarrow> forLoop s sets (Suc i) st1
            | (Some error, st1) \<Rightarrow>
                (let st2 = catchError s sets i error st1
                 in if abortOnFailure (configuration s) then st2
                    else forLoop s sets (Suc i) st2))
      else st)"
  by pat_completeness auto
termination
proof (relation "measure (\<lambda>(s, sets, i, st). max (length (signedTXs st)) (length sets) - i)",
    goal_cases)
  case 1
  show ?case by simp
next
  case (2 s sets i st x y)
  then show ?case using retry_decreases [OF 2(2), of st] by simp
next
  case (3 s sets i st x y x2 xa)
  then show ?case using retry_decreases [OF 3(2), of st] by simp
qed

declare forLoop.simps [simp del]

text \<open>
  \<^verbatim>\<open>send\<close>. The result is the error thrown, if any, and the final state. The two throws
  of \<^verbatim>\<open>send\<close> itself come before the first call of a collaborator. The instruction sets
  without instructions are filtered out before the transactions are built.
\<close>

definition send :: "SmartInstructionSender \<Rightarrow> Error option \<times> State" where
  "send s =
     (if publicKey (wallet s) = None then (Some WalletNotConnectedError, initialState)
      else case instructionSets s of
             None \<Rightarrow> (Some (Error ''No instruction sets provided''), initialState)
           | Some sets \<Rightarrow>
               if length sets = 0
               then (Some (Error ''No instruction sets provided''), initialState)
               else (case getSlotAndCurrentBlockHash (connection s) initialState of
                       ((slot0, currentBlock0), st1) \<Rightarrow>
                         (let st2 = st1\<lparr>slot := slot0, currentBlock := currentBlock0\<rparr>
                          in case buildAll (publicKey (wallet s)) currentBlock0
                                    (filter (\<lambda>i. length (instructions i) \<noteq> 0) sets) of
                               Inl error \<Rightarrow> (Some error, st2)
                             | Inr unsignedTXs \<Rightarrow>
                                 (let st3 = emit [EvSignAllTransactions unsignedTXs]
                                              (st2\<lparr>signedTXs := map (signReturned (wallet s)) unsignedTXs\<rparr>);
                                      st4 = st3\<lparr>successfulItems := 0\<rparr>
                                  in (None, forLoop s sets 0 st4)))))"

section \<open>What the trace shows\<close>

text \<open>The indices of the accepted submissions, in the order of the trace.\<close>

definition confirmedOf :: "Event \<Rightarrow> nat list" where
  "confirmedOf ev = (case ev of EvSendSignedTransaction i t (Accepted c) \<Rightarrow> [i] | _ \<Rightarrow> [])"

definition confirmedIndices :: "Event list \<Rightarrow> nat list" where
  "confirmedIndices evs = concat (map confirmedOf evs)"

text \<open>The arguments of the calls of the progress callback.\<close>

definition progressOf :: "Event \<Rightarrow> nat list" where
  "progressOf ev = (case ev of EvProgress i \<Rightarrow> [i] | _ \<Rightarrow> [])"

definition progressCalls :: "Event list \<Rightarrow> nat list" where
  "progressCalls evs = concat (map progressOf evs)"

text \<open>The calls of the failure callback, with their four arguments.\<close>

definition failureOf :: "Event \<Rightarrow> (Error \<times> nat \<times> nat \<times> InstructionSet option) list" where
  "failureOf ev = (case ev of EvFailure e i n g \<Rightarrow> [(e, i, n, g)] | _ \<Rightarrow> [])"

definition failureCalls :: "Event list \<Rightarrow> (Error \<times> nat \<times> nat \<times> InstructionSet option) list" where
  "failureCalls evs = concat (map failureOf evs)"

text \<open>The replies to the submissions made at index \<open>i\<close>.\<close>

definition submissionOf :: "nat \<Rightarrow> Event \<Rightarrow> SendResult list" where
  "submissionOf i ev =
     (case ev of EvSendSignedTransaction j t r \<Rightarrow> if j = i then [r] else [] | _ \<Rightarrow> [])"

definition submissions :: "nat \<Rightarrow> Event list \<Rightarrow> SendResult list" where
  "submissions i evs = concat (map (submissionOf i) evs)"

text \<open>
  The loop index of an event: of a submission, of a call of the progress callback and of
  a call of the failure callback.
\<close>

definition indexOf :: "Event \<Rightarrow> nat list" where
  "indexOf ev =
     (case ev of EvSendSignedTransaction i t r \<Rightarrow> [i] | EvProgress i \<Rightarrow> [i]
      | EvFailure e i n g \<Rightarrow> [i] | _ \<Rightarrow> [])"

definition eventIndices :: "Event list \<Rightarrow> nat list" where
  "eventIndices evs = concat (map indexOf evs)"

text \<open>The index and the instructions of every transaction submitted.\<close>

definition submittedOf :: "Event \<Rightarrow> (nat \<times> TransactionInstruction list) list" where
  "submittedOf ev =
     (case ev of EvSendSignedTransaction i (Some t) r \<Rightarrow> [(i, txInstructions t)] | _ \<Rightarrow> [])"

definition submitted :: "Event list \<Rightarrow> (nat \<times> TransactionInstruction list) list" where
  "submitted evs = concat (map submittedOf evs)"

text \<open>The index and the blockhash of every transaction submitted.\<close>

definition anchorOf :: "Event \<Rightarrow> (nat \<times> string) list" where
  "anchorOf ev =
     (case ev of EvSendSignedTransaction i (Some t) r \<Rightarrow> [(i, recentBlockhash t)] | _ \<Rightarrow> [])"

definition submittedAnchors :: "Event list \<Rightarrow> (nat \<times> string) list" where
  "submittedAnchors evs = concat (map anchorOf evs)"


section \<open>The states of a run\<close>

text \<open>
  What a step at index \<open>i\<close> keeps, from the state before to the state after: the trace
  grows at its end, by events of index \<open>i\<close> and by no call of the failure callback; the
  transactions below \<open>i\<close> stay as they are; the array does not shrink; the submissions are
  counted on.
\<close>

definition keeps :: "nat \<Rightarrow> State \<Rightarrow> State \<Rightarrow> bool" where
  "keeps i st st1 \<longleftrightarrow>
     (\<exists>ext. trace st1 = trace st @ ext \<and> set (eventIndices ext) \<subseteq> {i} \<and> failureCalls ext = [])
     \<and> (\<forall>j. j < i \<and> j < length (signedTXs st) \<longrightarrow> signedTXs st1 ! j = signedTXs st ! j)
     \<and> length (signedTXs st) \<le> length (signedTXs st1)
     \<and> sendCalls st \<le> sendCalls st1"

text \<open>The counter of successes is the number of accepted submissions.\<close>

definition tallied :: "State \<Rightarrow> bool" where
  "tallied st \<longleftrightarrow> successfulItems st = length (confirmedIndices (trace st))"


text \<open>
  The state in which \<^verbatim>\<open>send\<close> enters its loop: slot and blockhash fetched, one
  transaction built for every instruction set that has instructions, all of them signed.
\<close>

definition startState :: "SmartInstructionSender \<Rightarrow> InstructionSet list \<Rightarrow> State" where
  "startState s sets =
     initialState\<lparr>
       slot := getSlot (connection s) 0,
       currentBlock := getLatestBlockhash (connection s) 0,
       signedTXs := map (signReturned (wallet s))
         (map (transactionOf (publicKey (wallet s)) (getLatestBlockhash (connection s) 0))
            (filter (\<lambda>i. length (instructions i) \<noteq> 0) sets)),
       slotCalls := 1, blockhashCalls := 1,
       trace := [EvGetSlot (getSlot (connection s) 0),
                 EvGetLatestBlockhash (getLatestBlockhash (connection s) 0),
                 EvSignAllTransactions
                   (map (transactionOf (publicKey (wallet s)) (getLatestBlockhash (connection s) 0))
                      (filter (\<lambda>i. length (instructions i) \<noteq> 0) sets))]\<rparr>"

text \<open>
  What the loop from index \<open>i\<close> keeps: the trace grows at its end, by events of index
  \<open>i\<close> or more; the transactions below \<open>i\<close> stay as they are.
\<close>

definition loopKeeps :: "nat \<Rightarrow> State \<Rightarrow> State \<Rightarrow> bool" where
  "loopKeeps i st st1 \<longleftrightarrow>
     (\<exists>ext. trace st1 = trace st @ ext \<and> (\<forall>k \<in> set (eventIndices ext). i \<le> k))
     \<and> (\<forall>j. j < i \<and> j < length (signedTXs st) \<longrightarrow> signedTXs st1 ! j = signedTXs st ! j)
     \<and> length (signedTXs st) \<le> length (signedTXs st1)"

text \<open>
  The states in which a run of \<^verbatim>\<open>send\<close> stands at the head of its loop, with the loop
  index: the state after the prologue, and the state after every round that does not
  leave the loop.
\<close>

inductive loopHead :: "SmartInstructionSender \<Rightarrow> InstructionSet list \<Rightarrow> nat \<Rightarrow> State \<Rightarrow> bool"
  for s :: SmartInstructionSender and sets :: "InstructionSet list"
where
  start: "loopHead s sets 0 (startState s sets)"
| resolved:
    "loopHead s sets i st \<Longrightarrow> i < length (signedTXs st) \<Longrightarrow>
     retry s sets i (maxSigningAttempts (configuration s)) 1
       (st\<lparr>tx := Some (signedTXs st ! i), retryNumber := 0\<rparr>) = (None, st1) \<Longrightarrow>
     loopHead s sets (Suc i) st1"
| failed:
    "loopHead s sets i st \<Longrightarrow> i < length (signedTXs st) \<Longrightarrow>
     retry s sets i (maxSigningAttempts (configuration s)) 1
       (st\<lparr>tx := Some (signedTXs st ! i), retryNumber := 0\<rparr>) = (Some e, st1) \<Longrightarrow>
     \<not> abortOnFailure (configuration s) \<Longrightarrow>
     loopHead s sets (Suc i) (catchError s sets i e st1)"

code_pred loopHead .

text \<open>
  At the head of the loop with index \<open>i\<close>: the array is no longer than the list of
  instruction sets; every event so far has an index below \<open>i\<close>; the counter of successes
  is the number of accepted submissions; no hook is pending.
\<close>

definition headInv :: "InstructionSet list \<Rightarrow> nat \<Rightarrow> State \<Rightarrow> bool" where
  "headInv sets i st \<longleftrightarrow>
     length (signedTXs st) \<le> length sets
     \<and> (\<forall>k \<in> set (eventIndices (trace st)). k < i)
     \<and> tallied st
     \<and> pendingHook st = None"

text \<open>The call of the failure callback in the \<^verbatim>\<open>catch\<close> block, if it is made.\<close>

definition failureEvent ::
  "SmartInstructionSender \<Rightarrow> InstructionSet list \<Rightarrow> nat \<Rightarrow> Error option \<Rightarrow> State \<Rightarrow> Event list"
where
  "failureEvent s sets i r st =
     (case r of None \<Rightarrow> []
      | Some e \<Rightarrow>
          if onFailureCallback s
          then [EvFailure e i (successfulItems st) (arrayGet sets (int (successfulItems st) - 1))]
          else [])"

section \<open>Concrete senders and networks\<close>

definition demoWallet :: WalletSigner where
  "demoWallet =
     \<lparr>publicKey = Some ''payer'',
      signInPlace = (\<lambda>t. t\<lparr>signatures := signatures t @ [Signer ''payer'']\<rparr>),
      signReturned = (\<lambda>t. t\<lparr>signatures := signatures t @ [Signer ''payer'']\<rparr>)\<rparr>"

definition demoSender ::
  "InstructionSet list option \<Rightarrow> Connection \<Rightarrow> nat \<Rightarrow> bool \<Rightarrow> SmartInstructionSender" where
  "demoSender sets c m abort =
     \<lparr>connection = c, wallet = demoWallet, instructionSets = sets,
      configuration = \<lparr>maxSigningAttempts = m, abortOnFailure = abort, commitment = ''singleGossip''\<rparr>,
      onProgressCallback = True, onReSignCallback = True, onFailureCallback = True\<rparr>"

text \<open>A network on which nothing moves: the slot stays at 7, every submission is accepted at 7.\<close>

definition quietConnection :: Connection where
  "quietConnection =
     \<lparr>getSlot = (\<lambda>k. 7), getLatestBlockhash = (\<lambda>k. ''h''),
      sendSignedTransaction = (\<lambda>k t. Accepted 7), hookInTime = (\<lambda>i n. True)\<rparr>"

definition emptyGroup :: InstructionSet where
  "emptyGroup = \<lparr>signers = [], instructions = []\<rparr>"

definition groupA :: InstructionSet where
  "groupA = \<lparr>signers = [Signer ''a''], instructions = [TransactionInstruction 1]\<rparr>"

definition groupB :: InstructionSet where
  "groupB = \<lparr>signers = [], instructions = [TransactionInstruction 2, TransactionInstruction 3]\<rparr>"

definition groupC :: InstructionSet where
  "groupC = \<lparr>signers = [], instructions = [TransactionInstruction 4]\<rparr>"

text \<open>A network that rejects every submission with an error that is not a timeout.\<close>

definition rejectingConnection :: Connection where
  "rejectingConnection =
     \<lparr>getSlot = (\<lambda>k. 7), getLatestBlockhash = (\<lambda>k. ''h''),
      sendSignedTransaction = (\<lambda>k t. Failed ''misc-error''), hookInTime = (\<lambda>i n. True)\<rparr>"

text \<open>A network that accepts the first submission and rejects every later one.\<close>

definition firstOnlyConnection :: Connection where
  "firstOnlyConnection =
     \<lparr>getSlot = (\<lambda>k. 7), getLatestBlockhash = (\<lambda>k. ''h''),
      sendSignedTransaction = (\<lambda>k t. if k = 0 then Accepted 7 else Failed ''misc-error''),
      hookInTime = (\<lambda>i n. True)\<rparr>"



text \<open>A network on which the slot moves by 200 between two requests; every submission is
  accepted at slot 200.\<close>

definition driftConnection :: Connection where
  "driftConnection =
     \<lparr>getSlot = (\<lambda>k. 200 * k),
      getLatestBlockhash = (\<lambda>k. if k = 0 then ''h0'' else ''h1''),
      sendSignedTransaction = (\<lambda>k t. Accepted 200), hookInTime = (\<lambda>i n. True)\<rparr>"

text \<open>A network on which the slot moves by 200 between two requests; every submission is
  accepted at a slot far above any of them.\<close>

definition farConnection :: Connection where
  "farConnection =
     \<lparr>getSlot = (\<lambda>k. 200 * k),
      getLatestBlockhash = (\<lambda>k. if k = 0 then ''h0'' else ''h1''),
      sendSignedTransaction = (\<lambda>k t. Accepted 100000), hookInTime = (\<lambda>i n. True)\<rparr>"

text \<open>A network on which the slot moves by 200 between two requests and every submission
  times out.\<close>

definition driftTimeoutConnection :: Connection where
  "driftTimeoutConnection =
     \<lparr>getSlot = (\<lambda>k. 200 * k),
      getLatestBlockhash = (\<lambda>k. if k = 0 then ''h0'' else ''h1''),
      sendSignedTransaction = (\<lambda>k t. Failed ''timeout''), hookInTime = (\<lambda>i n. True)\<rparr>"

text \<open>The same network, with a wallet so slow that no hook is in time.\<close>

definition lateHookConnection :: Connection where
  "lateHookConnection = driftTimeoutConnection\<lparr>hookInTime := (\<lambda>i n. False)\<rparr>"

lemmas demo_defs = demoSender_def demoWallet_def quietConnection_def emptyGroup_def groupA_def
  groupB_def groupC_def

lemmas run_defs = send_def forLoop.simps retry_def attemptFn_def landHook_def onRetry_def
  catchError_def mainError_def messageOf_def
  signAndRebuildTransactionsFromInstructionSets_def rebuildLoop.simps arraySet_def arrayGet_def
  getSlotAndCurrentBlockHash_def callGetSlot_def callGetLatestBlockhash_def emit_def
  initialState_def buildTransaction_def transactionOf_def partialSign_def Let_def

section \<open>Lemmas\<close>

lemma confirmedIndices_simps [simp]:
  "confirmedIndices [] = []"
  "confirmedIndices (xs @ ys) = confirmedIndices xs @ confirmedIndices ys"
  "confirmedIndices (EvGetSlot n # xs) = confirmedIndices xs"
  "confirmedIndices (EvGetLatestBlockhash b # xs) = confirmedIndices xs"
  "confirmedIndices (EvSignAllTransactions ts # xs) = confirmedIndices xs"
  "confirmedIndices (EvSendSignedTransaction i t (Accepted c) # xs) = i # confirmedIndices xs"
  "confirmedIndices (EvSendSignedTransaction i t (Failed ty) # xs) = confirmedIndices xs"
  "confirmedIndices (EvProgress i # xs) = confirmedIndices xs"
  "confirmedIndices (EvReSign a i # xs) = confirmedIndices xs"
  "confirmedIndices (EvFailure e i n g # xs) = confirmedIndices xs"
  by (simp_all add: confirmedIndices_def confirmedOf_def)

lemma progressCalls_simps [simp]:
  "progressCalls [] = []"
  "progressCalls (xs @ ys) = progressCalls xs @ progressCalls ys"
  "progressCalls (EvGetSlot n # xs) = progressCalls xs"
  "progressCalls (EvGetLatestBlockhash b # xs) = progressCalls xs"
  "progressCalls (EvSignAllTransactions ts # xs) = progressCalls xs"
  "progressCalls (EvSendSignedTransaction i t r # xs) = progressCalls xs"
  "progressCalls (EvProgress i # xs) = i # progressCalls xs"
  "progressCalls (EvReSign a i # xs) = progressCalls xs"
  "progressCalls (EvFailure e i n g # xs) = progressCalls xs"
  by (simp_all add: progressCalls_def progressOf_def)

lemma failureCalls_simps [simp]:
  "failureCalls [] = []"
  "failureCalls (xs @ ys) = failureCalls xs @ failureCalls ys"
  "failureCalls (EvGetSlot n # xs) = failureCalls xs"
  "failureCalls (EvGetLatestBlockhash b # xs) = failureCalls xs"
  "failureCalls (EvSignAllTransactions ts # xs) = failureCalls xs"
  "failureCalls (EvSendSignedTransaction i t r # xs) = failureCalls xs"
  "failureCalls (EvProgress i # xs) = failureCalls xs"
  "failureCalls (EvReSign a i # xs) = failureCalls xs"
  "failureCalls (EvFailure e i n g # xs) = (e, i, n, g) # failureCalls xs"
  by (simp_all add: failureCalls_def failureOf_def)

lemma submissions_simps [simp]:
  "submissions k [] = []"
  "submissions k (xs @ ys) = submissions k xs @ submissions k ys"
  "submissions k (EvGetSlot n # xs) = submissions k xs"
  "submissions k (EvGetLatestBlockhash b # xs) = submissions k xs"
  "submissions k (EvSignAllTransactions ts # xs) = submissions k xs"
  "submissions k (EvSendSignedTransaction i t r # xs) =
     (if i = k then r # submissions k xs else submissions k xs)"
  "submissions k (EvProgress i # xs) = submissions k xs"
  "submissions k (EvReSign a i # xs) = submissions k xs"
  "submissions k (EvFailure e i n g # xs) = submissions k xs"
  by (simp_all add: submissions_def submissionOf_def)

lemma eventIndices_simps [simp]:
  "eventIndices [] = []"
  "eventIndices (xs @ ys) = eventIndices xs @ eventIndices ys"
  "eventIndices (EvGetSlot n # xs) = eventIndices xs"
  "eventIndices (EvGetLatestBlockhash b # xs) = eventIndices xs"
  "eventIndices (EvSignAllTransactions ts # xs) = eventIndices xs"
  "eventIndices (EvSendSignedTransaction i t r # xs) = i # eventIndices xs"
  "eventIndices (EvProgress i # xs) = i # eventIndices xs"
  "eventIndices (EvReSign a i # xs) = eventIndices xs"
  "eventIndices (EvFailure e i n g # xs) = i # eventIndices xs"
  by (simp_all add: eventIndices_def indexOf_def)

lemma failureCalls_indices:
  "(e, k, n, g) \<in> set (failureCalls evs) \<Longrightarrow> k \<in> set (eventIndices evs)"
proof (induction evs)
  case Nil
  then show ?case by simp
next
  case (Cons ev evs)
  then show ?case by (cases ev) auto
qed

lemma submissions_none:
  "i \<notin> set (eventIndices evs) \<Longrightarrow> submissions i evs = []"
proof (induction evs)
  case Nil
  then show ?case by simp
next
  case (Cons ev evs)
  then show ?case by (cases ev) auto
qed

lemma confirmedIndices_subset: "set (confirmedIndices evs) \<subseteq> set (eventIndices evs)"
proof (induction evs)
  case Nil
  show ?case by simp
next
  case (Cons ev evs)
  show ?case
  proof (cases ev)
    case (EvSendSignedTransaction i t r)
    with Cons show ?thesis by (cases r) auto
  qed (use Cons in auto)
qed

lemma progressCalls_subset: "set (progressCalls evs) \<subseteq> set (eventIndices evs)"
proof (induction evs)
  case Nil
  show ?case by simp
next
  case (Cons ev evs)
  then show ?case by (cases ev) auto
qed

text \<open>Events without a loop index: no submission, no call of a callback with an index.\<close>

lemma silent:
  assumes "eventIndices ext = []"
  shows "failureCalls ext = []" and "confirmedIndices ext = []" and "progressCalls ext = []"
    and "submissions k ext = []"
proof -
  show "failureCalls ext = []"
  proof (rule ccontr)
    assume "failureCalls ext \<noteq> []"
    then obtain f where "f \<in> set (failureCalls ext)" by (cases "failureCalls ext") auto
    then show False using failureCalls_indices [of "fst f" "fst (snd f)" "fst (snd (snd f))"
        "snd (snd (snd f))" ext] assms by simp
  qed
  show "confirmedIndices ext = []"
    using confirmedIndices_subset [of ext] assms by simp
  show "progressCalls ext = []"
    using progressCalls_subset [of ext] assms by simp
  show "submissions k ext = []"
    using assms by (intro submissions_none) simp
qed

lemma callGetSlot_eq:
  "callGetSlot c st =
     (getSlot c (slotCalls st),
      st\<lparr>slotCalls := Suc (slotCalls st), trace := trace st @ [EvGetSlot (getSlot c (slotCalls st))]\<rparr>)"
  by (simp add: callGetSlot_def emit_def Let_def)

lemma getSlotAndCurrentBlockHash_eq:
  "getSlotAndCurrentBlockHash c st =
     ((getSlot c (slotCalls st), getLatestBlockhash c (blockhashCalls st)),
      st\<lparr>slotCalls := Suc (slotCalls st), blockhashCalls := Suc (blockhashCalls st),
         trace := trace st @ [EvGetSlot (getSlot c (slotCalls st)),
                              EvGetLatestBlockhash (getLatestBlockhash c (blockhashCalls st))]\<rparr>)"
  by (simp add: getSlotAndCurrentBlockHash_def callGetSlot_def callGetLatestBlockhash_def
      emit_def Let_def)

lemma rebuildLoop_step:
  "j < length sets \<Longrightarrow> buildTransaction pk bh (sets ! j) = Inr t \<Longrightarrow>
     rebuildLoop pk sets bh j txs = rebuildLoop pk sets bh (Suc j) (arraySet txs j t)"
  "j < length sets \<Longrightarrow> buildTransaction pk bh (sets ! j) = Inl e \<Longrightarrow>
     rebuildLoop pk sets bh j txs = (Some e, txs)"
  "\<not> j < length sets \<Longrightarrow> rebuildLoop pk sets bh j txs = (None, txs)"
  by (subst rebuildLoop.simps; simp)+

lemma rebuildLoop_unchanged_below:
  "k < j \<Longrightarrow> k < length txs \<Longrightarrow> snd (rebuildLoop pk sets bh j txs) ! k = txs ! k"
proof (induction pk sets bh j txs rule: rebuildLoop.induct)
  case (1 pk sets bh j txs)
  show ?case
  proof (cases "j < length sets")
    case True
    show ?thesis
    proof (cases "buildTransaction pk bh (sets ! j)")
      case (Inl e)
      then show ?thesis using True by (simp add: rebuildLoop_step)
    next
      case (Inr t)
      have "snd (rebuildLoop pk sets bh (Suc j) (arraySet txs j t)) ! k = arraySet txs j t ! k"
        using 1(1) [OF True Inr] 1(2,3) by (simp add: length_arraySet)
      also have "\<dots> = txs ! k"
        using 1(2,3) by (simp add: arraySet_def nth_append)
      finally show ?thesis using True Inr by (simp add: rebuildLoop_step)
    qed
  next
    case False
    then show ?thesis by (simp add: rebuildLoop_step)
  qed
qed

lemma length_rebuildLoop_ge:
  "length txs \<le> length (snd (rebuildLoop pk sets bh j txs))"
proof (induction pk sets bh j txs rule: rebuildLoop.induct)
  case (1 pk sets bh j txs)
  show ?case
  proof (cases "j < length sets")
    case True
    show ?thesis
    proof (cases "buildTransaction pk bh (sets ! j)")
      case (Inl e)
      then show ?thesis using True by (simp add: rebuildLoop_step)
    next
      case (Inr t)
      from 1 [OF True Inr] True Inr show ?thesis
        by (simp add: rebuildLoop_step length_arraySet split: if_splits)
    qed
  next
    case False
    then show ?thesis by (simp add: rebuildLoop_step)
  qed
qed


lemma signAndRebuild_fields [simp]:
  "successfulItems (snd (signAndRebuildTransactionsFromInstructionSets s sets k bh a st)) = successfulItems st"
  "slot (snd (signAndRebuildTransactionsFromInstructionSets s sets k bh a st)) = slot st"
  "currentBlock (snd (signAndRebuildTransactionsFromInstructionSets s sets k bh a st)) = currentBlock st"
  "sendCalls (snd (signAndRebuildTransactionsFromInstructionSets s sets k bh a st)) = sendCalls st"
  "slotCalls (snd (signAndRebuildTransactionsFromInstructionSets s sets k bh a st)) = slotCalls st"
  "blockhashCalls (snd (signAndRebuildTransactionsFromInstructionSets s sets k bh a st)) = blockhashCalls st"
  "retryNumber (snd (signAndRebuildTransactionsFromInstructionSets s sets k bh a st)) = retryNumber st"
  "pendingHook (snd (signAndRebuildTransactionsFromInstructionSets s sets k bh a st)) = pendingHook st"
  "tx (snd (signAndRebuildTransactionsFromInstructionSets s sets k bh a st)) = tx st"
  by (simp_all add: signAndRebuildTransactionsFromInstructionSets_def Let_def emit_def
      split: prod.split option.split)

lemma signAndRebuild_trace:
  "trace (snd (signAndRebuildTransactionsFromInstructionSets s sets k bh a st)) =
     trace st @ (if onReSignCallback s then [EvReSign a k] else [])
       @ (case fst (rebuildLoop (publicKey (wallet s)) sets bh k (signedTXs st)) of
            Some e \<Rightarrow> []
          | None \<Rightarrow> [EvSignAllTransactions
                      (drop k (snd (rebuildLoop (publicKey (wallet s)) sets bh k (signedTXs st))))])"
  by (simp add: signAndRebuildTransactionsFromInstructionSets_def Let_def emit_def
      split: prod.split option.split)

lemma signAndRebuild_silent [simp]:
  "eventIndices (trace (snd (signAndRebuildTransactionsFromInstructionSets s sets k bh a st)))
     = eventIndices (trace st)"
  "failureCalls (trace (snd (signAndRebuildTransactionsFromInstructionSets s sets k bh a st)))
     = failureCalls (trace st)"
  "confirmedIndices (trace (snd (signAndRebuildTransactionsFromInstructionSets s sets k bh a st)))
     = confirmedIndices (trace st)"
  "progressCalls (trace (snd (signAndRebuildTransactionsFromInstructionSets s sets k bh a st)))
     = progressCalls (trace st)"
  "submissions n (trace (snd (signAndRebuildTransactionsFromInstructionSets s sets k bh a st)))
     = submissions n (trace st)"
  by (simp_all add: signAndRebuild_trace split: option.split)

lemma signAndRebuild_signedTXs:
  "signedTXs (snd (signAndRebuildTransactionsFromInstructionSets s sets k bh a st)) =
     (case rebuildLoop (publicKey (wallet s)) sets bh k (signedTXs st) of
        (Some e, txs) \<Rightarrow> txs
      | (None, rebuilt) \<Rightarrow> take k rebuilt @ map (signInPlace (wallet s)) (drop k rebuilt))"
  by (simp add: signAndRebuildTransactionsFromInstructionSets_def Let_def emit_def
      split: prod.split option.split)

lemma signAndRebuild_unchanged_below:
  assumes "j < k" and "j < length (signedTXs st)"
  shows "signedTXs (snd (signAndRebuildTransactionsFromInstructionSets s sets k bh a st)) ! j
           = signedTXs st ! j"
proof -
  let ?r = "snd (rebuildLoop (publicKey (wallet s)) sets bh k (signedTXs st))"
  have l: "j < length ?r"
    using assms(2) length_rebuildLoop_ge [of "signedTXs st" "publicKey (wallet s)" sets bh k]
    by simp
  then have "(take k ?r @ map (signInPlace (wallet s)) (drop k ?r)) ! j = ?r ! j"
    using assms(1) by (simp add: nth_append)
  moreover have "?r ! j = signedTXs st ! j"
    using assms by (rule rebuildLoop_unchanged_below)
  ultimately show ?thesis
    by (cases "rebuildLoop (publicKey (wallet s)) sets bh k (signedTXs st)")
      (auto simp: signAndRebuild_signedTXs split: option.split)
qed

lemma length_signAndRebuild_ge:
  "length (signedTXs st)
     \<le> length (signedTXs (snd (signAndRebuildTransactionsFromInstructionSets s sets k bh a st)))"
  using length_rebuildLoop_ge [of "signedTXs st" "publicKey (wallet s)" sets bh k]
  by (cases "rebuildLoop (publicKey (wallet s)) sets bh k (signedTXs st)")
    (auto simp: signAndRebuild_signedTXs split: option.split)

lemma signAndRebuild_eq:
  "signAndRebuildTransactionsFromInstructionSets s sets k bh a st =
     (case rebuildLoop (publicKey (wallet s)) sets bh k (signedTXs st) of
        (Some e, txs) \<Rightarrow>
          (Inl e, st\<lparr>signedTXs := txs,
                     trace := trace st @ (if onReSignCallback s then [EvReSign a k] else [])\<rparr>)
      | (None, rebuilt) \<Rightarrow>
          (Inr (arrayGet (map (signInPlace (wallet s)) (drop k rebuilt)) 0),
           st\<lparr>signedTXs := take k rebuilt @ map (signInPlace (wallet s)) (drop k rebuilt),
              trace := trace st @ (if onReSignCallback s then [EvReSign a k] else [])
                         @ [EvSignAllTransactions (drop k rebuilt)]\<rparr>))"
proof -
  have "drop (k - min (length x) k) (map f (drop k x)) = map f (drop k x)"
    for x :: "Transaction list" and f :: "Transaction \<Rightarrow> Transaction"
    by (cases "k \<le> length x") auto
  then show ?thesis
    by (auto simp: signAndRebuildTransactionsFromInstructionSets_def Let_def emit_def
        split: prod.split option.split)
qed


text \<open>The hook: what it leaves alone, and that its events carry no loop index.\<close>

lemma onRetry_fields [simp]:
  "sendCalls (onRetry s sets i e a st) = sendCalls st"
  "retryNumber (onRetry s sets i e a st) = retryNumber st"
  "successfulItems (onRetry s sets i e a st) = successfulItems st"
  "pendingHook (onRetry s sets i e a st) = pendingHook st"
  "eventIndices (trace (onRetry s sets i e a st)) = eventIndices (trace st)"
  "failureCalls (trace (onRetry s sets i e a st)) = failureCalls (trace st)"
  "confirmedIndices (trace (onRetry s sets i e a st)) = confirmedIndices (trace st)"
  "submissions k (trace (onRetry s sets i e a st)) = submissions k (trace st)"
  "progressCalls (trace (onRetry s sets i e a st)) = progressCalls (trace st)"
  unfolding onRetry_def Let_def split_beta
  by (simp_all add: callGetSlot_eq getSlotAndCurrentBlockHash_eq split: sum.split)

lemma onRetry_extends:
  "\<exists>ext. trace (onRetry s sets i e a st) = trace st @ ext \<and> eventIndices ext = []"
  unfolding onRetry_def Let_def split_beta
  by (auto simp: callGetSlot_eq getSlotAndCurrentBlockHash_eq signAndRebuild_trace
      split: sum.split option.split)

lemma onRetry_unchanged_below:
  "j < i \<Longrightarrow> j < length (signedTXs st) \<Longrightarrow> signedTXs (onRetry s sets i e a st) ! j = signedTXs st ! j"
  unfolding onRetry_def Let_def split_beta
  by (auto simp: callGetSlot_eq getSlotAndCurrentBlockHash_eq signAndRebuild_unchanged_below
      split: sum.split)

lemma length_onRetry_ge:
  "length (signedTXs st) \<le> length (signedTXs (onRetry s sets i e a st))"
  unfolding onRetry_def Let_def split_beta
  by (auto simp: callGetSlot_eq getSlotAndCurrentBlockHash_eq
      split: sum.split intro!: order_trans [OF _ length_signAndRebuild_ge])

lemma landHook_fields [simp]:
  "sendCalls (landHook s sets i st) = sendCalls st"
  "retryNumber (landHook s sets i st) = retryNumber st"
  "successfulItems (landHook s sets i st) = successfulItems st"
  "pendingHook (landHook s sets i st) = None"
  "eventIndices (trace (landHook s sets i st)) = eventIndices (trace st)"
  "failureCalls (trace (landHook s sets i st)) = failureCalls (trace st)"
  "confirmedIndices (trace (landHook s sets i st)) = confirmedIndices (trace st)"
  "submissions k (trace (landHook s sets i st)) = submissions k (trace st)"
  "progressCalls (trace (landHook s sets i st)) = progressCalls (trace st)"
  by (simp_all add: landHook_def split: option.split)

lemma landHook_none: "pendingHook st = None \<Longrightarrow> landHook s sets i st = st"
  by (simp add: landHook_def)

lemma landHook_extends:
  "\<exists>ext. trace (landHook s sets i st) = trace st @ ext \<and> eventIndices ext = []"
proof (cases "pendingHook st")
  case None
  then show ?thesis by (simp add: landHook_def)
next
  case (Some p)
  obtain e a where p: "p = (e, a)" by (cases p)
  show ?thesis
    using onRetry_extends [of s sets i e a "st\<lparr>pendingHook := None\<rparr>"] Some p
    by (simp add: landHook_def)
qed

lemma landHook_unchanged_below:
  "j < i \<Longrightarrow> j < length (signedTXs st) \<Longrightarrow> signedTXs (landHook s sets i st) ! j = signedTXs st ! j"
  by (auto simp: landHook_def onRetry_unchanged_below split: option.split)

lemma length_landHook_ge:
  "length (signedTXs st) \<le> length (signedTXs (landHook s sets i st))"
  using length_onRetry_ge [of "st\<lparr>pendingHook := None\<rparr>" s sets i]
  by (auto simp: landHook_def split: option.split)

text \<open>The attempt, with the state \<open>L\<close> in which the reply to the submission arrives.\<close>

lemma attemptFn_eq:
  "attemptFn s sets i st =
     (let reply = sendSignedTransaction (connection s) (sendCalls st) (tx st);
          L = landHook s sets i
                (st\<lparr>retryNumber := Suc (retryNumber st), sendCalls := Suc (sendCalls st),
                    trace := trace st @ [EvSendSignedTransaction i (tx st) reply]\<rparr>)
      in case reply of
           Failed ty \<Rightarrow>
             ((if ty = ''timeout'' \<and> maxSigningAttempts (configuration s) \<le> Suc (retryNumber st)
               then Bailed (Error ''MAX_RESIGN_ATTEMPTS_REACHED'')
               else if ty = ''timeout'' then Thrown (ResultErr ty) else Bailed (ResultErr ty)), L)
         | Accepted c \<Rightarrow>
             if slot L + 150 \<le> c \<and> Suc i < length (signedTXs L)
             then (case signAndRebuildTransactionsFromInstructionSets s sets (Suc i)
                          (getLatestBlockhash (connection s) (blockhashCalls L)) 0
                          (L\<lparr>successfulItems := Suc (successfulItems L),
                             slotCalls := Suc (slotCalls L), blockhashCalls := Suc (blockhashCalls L),
                             trace := trace L @ (if onProgressCallback s then [EvProgress i] else [])
                                @ [EvGetSlot (getSlot (connection s) (slotCalls L)),
                                   EvGetLatestBlockhash
                                     (getLatestBlockhash (connection s) (blockhashCalls L))],
                             slot := getSlot (connection s) (slotCalls L),
                             currentBlock := getLatestBlockhash (connection s) (blockhashCalls L)\<rparr>) of
                     (Inl e, st6) \<Rightarrow> (Thrown e, st6)
                   | (Inr t, st6) \<Rightarrow> (Resolved, st6))
             else (Resolved,
                   L\<lparr>successfulItems := Suc (successfulItems L),
                      trace := trace L @ (if onProgressCallback s then [EvProgress i] else [])\<rparr>))"
  by (auto simp: attemptFn_def Let_def emit_def getSlotAndCurrentBlockHash_eq
      split: SendResult.split)

lemma snd_case_sum [simp]:
  "snd (case x of Inl e \<Rightarrow> (f e, y) | Inr t \<Rightarrow> (g t, y)) = y"
  by (cases x) auto

lemma attemptFn_fields [simp]:
  "retryNumber (snd (attemptFn s sets i st)) = Suc (retryNumber st)"
  "sendCalls (snd (attemptFn s sets i st)) = Suc (sendCalls st)"
  "pendingHook (snd (attemptFn s sets i st)) = None"
  by (simp_all add: attemptFn_eq Let_def split_beta split: SendResult.split)

lemma attemptFn_projections:
  "submissions k (trace (snd (attemptFn s sets i st))) =
     submissions k (trace st)
       @ (if i = k then [sendSignedTransaction (connection s) (sendCalls st) (tx st)] else [])"
  "failureCalls (trace (snd (attemptFn s sets i st))) = failureCalls (trace st)"
  "set (eventIndices (trace (snd (attemptFn s sets i st)))) = set (eventIndices (trace st)) \<union> {i}"
  "confirmedIndices (trace (snd (attemptFn s sets i st))) =
     confirmedIndices (trace st)
       @ (case sendSignedTransaction (connection s) (sendCalls st) (tx st) of
            Accepted c \<Rightarrow> [i] | Failed ty \<Rightarrow> [])"
  "successfulItems (snd (attemptFn s sets i st)) =
     successfulItems st
       + (case sendSignedTransaction (connection s) (sendCalls st) (tx st) of
            Accepted c \<Rightarrow> 1 | Failed ty \<Rightarrow> 0)"
  by (auto simp: attemptFn_eq Let_def split_beta split: SendResult.split)

text \<open>The first thing an attempt does is to submit the current transaction.\<close>

lemma attemptFn_first_event:
  "\<exists>rest. trace (snd (attemptFn s sets i st)) =
      trace st @ EvSendSignedTransaction i (tx st)
                   (sendSignedTransaction (connection s) (sendCalls st) (tx st)) # rest"
proof -
  let ?reply = "sendSignedTransaction (connection s) (sendCalls st) (tx st)"
  let ?sent = "st\<lparr>retryNumber := Suc (retryNumber st), sendCalls := Suc (sendCalls st),
                    trace := trace st @ [EvSendSignedTransaction i (tx st) ?reply]\<rparr>"
  obtain ext where ext: "trace (landHook s sets i ?sent) = trace ?sent @ ext"
    using landHook_extends by blast
  have "\<exists>rest. trace (snd (attemptFn s sets i st)) = trace (landHook s sets i ?sent) @ rest"
    by (auto simp: attemptFn_eq Let_def split_beta signAndRebuild_trace split: SendResult.split)
  then obtain rest where "trace (snd (attemptFn s sets i st)) = trace (landHook s sets i ?sent) @ rest"
    by blast
  then show ?thesis
    unfolding ext by simp
qed

lemma keeps_refl: "keeps i st st"
  by (simp add: keeps_def)

lemma keeps_trans:
  assumes "keeps i st st1" and "keeps i st1 st2"
  shows "keeps i st st2"
proof -
  from assms obtain e1 e2 where
    e: "trace st1 = trace st @ e1" "set (eventIndices e1) \<subseteq> {i}" "failureCalls e1 = []"
       "trace st2 = trace st1 @ e2" "set (eventIndices e2) \<subseteq> {i}" "failureCalls e2 = []"
    unfolding keeps_def by blast
  have "trace st2 = trace st @ (e1 @ e2) \<and> set (eventIndices (e1 @ e2)) \<subseteq> {i}
          \<and> failureCalls (e1 @ e2) = []"
    using e by simp
  then have 1: "\<exists>ext. trace st2 = trace st @ ext \<and> set (eventIndices ext) \<subseteq> {i}
          \<and> failureCalls ext = []"
    by blast
  have 2: "\<forall>j. j < i \<and> j < length (signedTXs st) \<longrightarrow> signedTXs st2 ! j = signedTXs st ! j"
    using assms unfolding keeps_def by (metis order_less_le_trans)
  show ?thesis
    unfolding keeps_def using 1 2 assms unfolding keeps_def by auto
qed

lemma keeps_onRetry: "keeps i st (onRetry s sets i e a st)"
proof -
  obtain ext where ext: "trace (onRetry s sets i e a st) = trace st @ ext" "eventIndices ext = []"
    using onRetry_extends by blast
  then show ?thesis
    unfolding keeps_def
    using silent(1) [OF ext(2)] onRetry_unchanged_below [of _ i st s sets e a]
      length_onRetry_ge [of st s sets i e a]
    by auto
qed

lemma keeps_landHook: "keeps i st (landHook s sets i st)"
proof -
  obtain ext where ext: "trace (landHook s sets i st) = trace st @ ext" "eventIndices ext = []"
    using landHook_extends by blast
  then show ?thesis
    unfolding keeps_def
    using silent(1) [OF ext(2)] landHook_unchanged_below [of _ i st s sets]
      length_landHook_ge [of st s sets i]
    by auto
qed

lemma keeps_signAndRebuild:
  "keeps i st (snd (signAndRebuildTransactionsFromInstructionSets s sets (Suc i) bh a st))"
  unfolding keeps_def
  by (auto simp: signAndRebuild_trace signAndRebuild_unchanged_below length_signAndRebuild_ge
      split: option.split)

lemma keeps_attemptFn: "keeps i st (snd (attemptFn s sets i st))"
proof -
  let ?reply = "sendSignedTransaction (connection s) (sendCalls st) (tx st)"
  let ?sent = "st\<lparr>retryNumber := Suc (retryNumber st), sendCalls := Suc (sendCalls st),
                    trace := trace st @ [EvSendSignedTransaction i (tx st) ?reply]\<rparr>"
  define L where "L = landHook s sets i ?sent"
  have "keeps i st ?sent"
    by (simp add: keeps_def)
  moreover have "keeps i ?sent L"
    unfolding L_def by (rule keeps_landHook)
  ultimately have kl: "keeps i st L"
    by (rule keeps_trans)
  have p: "keeps i L (L\<lparr>successfulItems := n, trace := trace L @ ev\<rparr>)"
    if "set (eventIndices ev) \<subseteq> {i}" and "failureCalls ev = []" for n ev
    using that by (simp add: keeps_def)
  have q: "keeps i L (snd (signAndRebuildTransactionsFromInstructionSets s sets (Suc i) bh 0
               (L\<lparr>successfulItems := n, slotCalls := sc, blockhashCalls := bc,
                  trace := trace L @ ev, slot := sl, currentBlock := bh'\<rparr>)))"
    if "set (eventIndices ev) \<subseteq> {i}" and "failureCalls ev = []" for n ev sc bc sl bh bh'
  proof -
    let ?m = "L\<lparr>successfulItems := n, slotCalls := sc, blockhashCalls := bc,
                  trace := trace L @ ev, slot := sl, currentBlock := bh'\<rparr>"
    have "keeps i L ?m" using that by (simp add: keeps_def)
    then show ?thesis
      using keeps_signAndRebuild [of i ?m s sets bh 0] keeps_trans by blast
  qed
  have "keeps i L (snd (attemptFn s sets i st))"
    unfolding attemptFn_eq Let_def split_beta L_def [symmetric]
    by (auto simp: keeps_refl keeps_def [of i L "L\<lparr>successfulItems := n\<rparr>" for n]
        split: SendResult.split intro!: p q)
  with kl show ?thesis by (rule keeps_trans)
qed

lemma keeps_pending: "keeps i st (st\<lparr>pendingHook := p\<rparr>)"
  by (simp add: keeps_def)

lemma keeps_retryLoop: "keeps i st (snd (retryLoop s sets i t num errs st))"
proof (induction t arbitrary: num errs st)
  case 0
  show ?case
    using keeps_attemptFn [of i st s sets]
    by (auto split: prod.split Attempt.split)
next
  case (Suc t)
  show ?case
  proof (cases "attemptFn s sets i st")
    case (Pair a st1)
    have k1: "keeps i st st1"
      using keeps_attemptFn [of i st s sets] Pair by simp
    show ?thesis
    proof (cases a)
      case (Thrown e)
      let ?st2 = "if hookInTime (connection s) i num then onRetry s sets i e num st1
                  else st1\<lparr>pendingHook := Some (e, num)\<rparr>"
      have "keeps i st1 ?st2"
        using keeps_onRetry [of i st1 s sets e num] keeps_pending [of i st1] by simp
      with k1 have "keeps i st ?st2"
        by (rule keeps_trans)
      then have "keeps i st (snd (retryLoop s sets i t (Suc num) (errs @ [e]) ?st2))"
        using Suc.IH keeps_trans by blast
      then show ?thesis using Pair Thrown by simp
    qed (use Pair k1 in simp_all)
  qed
qed

lemma keeps_retry: "keeps i st (snd (retry s sets i t num st))"
  unfolding retry_def by (rule keeps_retryLoop)

lemma keeps_extends: "keeps i st st1 \<Longrightarrow> \<exists>ext. trace st1 = trace st @ ext"
  unfolding keeps_def by blast



text \<open>The counter of successes follows the accepted submissions.\<close>

lemma tallied_attemptFn: "tallied st \<Longrightarrow> tallied (snd (attemptFn s sets i st))"
  by (simp add: tallied_def attemptFn_projections split: SendResult.split)

lemma tallied_retryLoop: "tallied st \<Longrightarrow> tallied (snd (retryLoop s sets i t num errs st))"
proof (induction t arbitrary: num errs st)
  case 0
  then show ?case
    using tallied_attemptFn [of st s sets i]
    by (auto split: prod.split Attempt.split)
next
  case (Suc t)
  show ?case
  proof (cases "attemptFn s sets i st")
    case (Pair a st1)
    have t1: "tallied st1"
      using tallied_attemptFn [OF Suc.prems, of s sets i] Pair by simp
    show ?thesis
    proof (cases a)
      case (Thrown e)
      let ?st2 = "if hookInTime (connection s) i num then onRetry s sets i e num st1
                  else st1\<lparr>pendingHook := Some (e, num)\<rparr>"
      have "tallied ?st2"
        using t1 by (simp add: tallied_def)
      then have "tallied (snd (retryLoop s sets i t (Suc num) (errs @ [e]) ?st2))"
        by (rule Suc.IH)
      then show ?thesis using Pair Thrown by simp
    qed (use Pair t1 in simp_all)
  qed
qed

lemma tallied_retry: "tallied st \<Longrightarrow> tallied (snd (retry s sets i t num st))"
  unfolding retry_def by (rule tallied_retryLoop)

lemma pendingHook_retryLoop [simp]: "pendingHook (snd (retryLoop s sets i t num errs st)) = None"
proof (induction t arbitrary: num errs st)
  case 0
  obtain a st1 where a: "attemptFn s sets i st = (a, st1)" by force
  then have "pendingHook st1 = None"
    using attemptFn_fields(3) [of s sets i st] by simp
  then show ?case using a by (cases a) simp_all
next
  case (Suc t)
  obtain a st1 where a: "attemptFn s sets i st = (a, st1)" by force
  then have "pendingHook st1 = None"
    using attemptFn_fields(3) [of s sets i st] by simp
  then show ?case using a Suc.IH by (cases a) simp_all
qed

lemma pendingHook_retry [simp]: "pendingHook (snd (retry s sets i t num st)) = None"
  by (simp add: retry_def)






text \<open>The first thing a run of \<open>retry\<close> does is to submit the current transaction.\<close>

lemma retryLoop_first_event:
  "\<exists>rest. trace (snd (retryLoop s sets i t num errs st)) =
      trace st @ EvSendSignedTransaction i (tx st)
                   (sendSignedTransaction (connection s) (sendCalls st) (tx st)) # rest"
proof (cases t)
  case 0
  then show ?thesis
    using attemptFn_first_event [of s sets i st]
    by (auto split: prod.split Attempt.split)
next
  case (Suc t')
  obtain a st1 where a: "attemptFn s sets i st = (a, st1)" by force
  obtain rest where r: "trace st1 = trace st @ EvSendSignedTransaction i (tx st)
                   (sendSignedTransaction (connection s) (sendCalls st) (tx st)) # rest"
    using attemptFn_first_event [of s sets i st] a by auto
  show ?thesis
  proof (cases a)
    case (Thrown e)
    let ?st2 = "if hookInTime (connection s) i num then onRetry s sets i e num st1
                else st1\<lparr>pendingHook := Some (e, num)\<rparr>"
    have "keeps i st1 ?st2"
      using keeps_onRetry [of i st1 s sets e num] keeps_pending [of i st1] by simp
    then have "keeps i st1 (snd (retryLoop s sets i t' (Suc num) (errs @ [e]) ?st2))"
      using keeps_retryLoop [of i ?st2 s sets t' "Suc num" "errs @ [e]"] keeps_trans by blast
    then obtain ext where
      "trace (snd (retryLoop s sets i t' (Suc num) (errs @ [e]) ?st2)) = trace st1 @ ext"
      using keeps_extends by blast
    then show ?thesis using a Thrown Suc r by simp
  qed (use a Suc r in simp_all)
qed

lemma retry_first_event:
  "\<exists>rest. trace (snd (retry s sets i t num st)) =
      trace st @ EvSendSignedTransaction i (tx st)
                   (sendSignedTransaction (connection s) (sendCalls st) (tx st)) # rest"
  unfolding retry_def by (rule retryLoop_first_event)

lemma buildAll_filtered:
  "buildAll pk bh (filter (\<lambda>i. instructions i \<noteq> []) sets)
     = Inr (map (transactionOf pk bh) (filter (\<lambda>i. instructions i \<noteq> []) sets))"
  by (induction sets) (simp_all add: buildTransaction_def)

lemma send_runs:
  assumes "publicKey (wallet s) \<noteq> None" and "instructionSets s = Some sets" and "sets \<noteq> []"
  shows "send s = (None, forLoop s sets 0 (startState s sets))"
proof -
  have "(getSlotAndCurrentBlockHash (connection s) initialState) =
     ((getSlot (connection s) 0, getLatestBlockhash (connection s) 0),
      initialState\<lparr>slotCalls := 1, blockhashCalls := 1,
         trace := [EvGetSlot (getSlot (connection s) 0),
                   EvGetLatestBlockhash (getLatestBlockhash (connection s) 0)]\<rparr>)"
    by (simp add: getSlotAndCurrentBlockHash_eq initialState_def)
  then show ?thesis
    using assms
    by (simp add: send_def startState_def Let_def emit_def initialState_def buildAll_filtered)
qed

lemma send_throws:
  "publicKey (wallet s) = None \<Longrightarrow> send s = (Some WalletNotConnectedError, initialState)"
  "publicKey (wallet s) \<noteq> None \<Longrightarrow> instructionSets s = None \<or> instructionSets s = Some [] \<Longrightarrow>
     send s = (Some (Error ''No instruction sets provided''), initialState)"
  by (auto simp: send_def)

lemma retry_resolved:
  "fst (attemptFn s sets i st) = Resolved \<Longrightarrow>
     retry s sets i t num st = (None, snd (attemptFn s sets i st))"
  unfolding retry_def by (cases t; cases "attemptFn s sets i st") auto

lemma retry_bailed:
  "fst (attemptFn s sets i st) = Bailed e \<Longrightarrow>
     retry s sets i t num st = (Some e, snd (attemptFn s sets i st))"
  unfolding retry_def by (cases t; cases "attemptFn s sets i st") auto



text \<open>The attempt without a pending hook, when its submission fails or is accepted without a rebuild.\<close>

lemma attemptFn_failed:
  assumes "sendSignedTransaction (connection s) (sendCalls st) (tx st) = Failed ty"
    and "pendingHook st = None"
  shows "attemptFn s sets i st =
     ((if ty = ''timeout'' \<and> maxSigningAttempts (configuration s) \<le> Suc (retryNumber st)
       then Bailed (Error ''MAX_RESIGN_ATTEMPTS_REACHED'')
       else if ty = ''timeout'' then Thrown (ResultErr ty) else Bailed (ResultErr ty)),
      st\<lparr>retryNumber := Suc (retryNumber st), sendCalls := Suc (sendCalls st),
         trace := trace st @ [EvSendSignedTransaction i (tx st) (Failed ty)]\<rparr>)"
  using assms
  by (simp add: attemptFn_eq Let_def landHook_none)

lemma attemptFn_failed_outcome:
  assumes "sendSignedTransaction (connection s) (sendCalls st) (tx st) = Failed ty"
  shows "fst (attemptFn s sets i st) =
     (if ty = ''timeout'' \<and> maxSigningAttempts (configuration s) \<le> Suc (retryNumber st)
       then Bailed (Error ''MAX_RESIGN_ATTEMPTS_REACHED'')
       else if ty = ''timeout'' then Thrown (ResultErr ty) else Bailed (ResultErr ty))"
  using assms
  by (simp add: attemptFn_eq Let_def)

lemma attemptFn_accepted_plain:
  assumes "sendSignedTransaction (connection s) (sendCalls st) (tx st) = Accepted c"
    and "c < slot st + 150 \<or> length (signedTXs st) \<le> Suc i"
    and "pendingHook st = None"
  shows "attemptFn s sets i st =
     (Resolved,
      st\<lparr>retryNumber := Suc (retryNumber st), sendCalls := Suc (sendCalls st),
         successfulItems := Suc (successfulItems st),
         trace := trace st @ [EvSendSignedTransaction i (tx st) (Accepted c)]
            @ (if onProgressCallback s then [EvProgress i] else [])\<rparr>)"
  using assms
  by (auto simp add: attemptFn_eq Let_def landHook_none)

text \<open>One round of the loop, as a function of the outcome of \<open>retry\<close>.\<close>

lemma forLoop_step:
  assumes "i < length (signedTXs st)"
    and "retry s sets i (maxSigningAttempts (configuration s)) 1
           (st\<lparr>tx := Some (signedTXs st ! i), retryNumber := 0\<rparr>) = (r, st1)"
  shows "forLoop s sets i st =
     (case r of None \<Rightarrow> forLoop s sets (Suc i) st1
      | Some e \<Rightarrow> if abortOnFailure (configuration s) then catchError s sets i e st1
                  else forLoop s sets (Suc i) (catchError s sets i e st1))"
  using assms by (subst forLoop.simps) (simp add: Let_def split: option.split)

lemma forLoop_done: "\<not> i < length (signedTXs st) \<Longrightarrow> forLoop s sets i st = st"
  by (subst forLoop.simps) simp

lemma catchError_fields [simp]:
  "successfulItems (catchError s sets i e st) = successfulItems st"
  "sendCalls (catchError s sets i e st) = sendCalls st"
  "pendingHook (catchError s sets i e st) = pendingHook st"
  "slot (catchError s sets i e st) = slot st"
  "confirmedIndices (trace (catchError s sets i e st)) = confirmedIndices (trace st)"
  by (simp_all add: catchError_def emit_def)

lemma loopKeeps_refl: "loopKeeps i st st"
  by (simp add: loopKeeps_def)

lemma keeps_loopKeeps:
  assumes "keeps i st st1" and "loopKeeps (Suc i) st1 st2"
  shows "loopKeeps i st st2"
proof -
  from assms obtain e1 e2 where
    e: "trace st1 = trace st @ e1" "set (eventIndices e1) \<subseteq> {i}"
       "trace st2 = trace st1 @ e2" "\<forall>k \<in> set (eventIndices e2). Suc i \<le> k"
    unfolding keeps_def loopKeeps_def by blast
  have "trace st2 = trace st @ (e1 @ e2) \<and> (\<forall>k \<in> set (eventIndices (e1 @ e2)). i \<le> k)"
    using e by auto
  then have 1: "\<exists>ext. trace st2 = trace st @ ext \<and> (\<forall>k \<in> set (eventIndices ext). i \<le> k)"
    by blast
  have 2: "\<forall>j. j < i \<and> j < length (signedTXs st) \<longrightarrow> signedTXs st2 ! j = signedTXs st ! j"
    using assms unfolding keeps_def loopKeeps_def
    by (metis less_Suc_eq order_less_le_trans)
  show ?thesis
    unfolding loopKeeps_def using 1 2 assms unfolding keeps_def loopKeeps_def by auto
qed

lemma keeps_reset:
  "keeps i (st\<lparr>tx := t, retryNumber := n\<rparr>) st1 \<Longrightarrow> keeps i st st1"
  by (simp add: keeps_def)

lemma keeps_catchError:
  "keeps i st st1 \<Longrightarrow> \<exists>ext. trace (catchError s sets i e st1) = trace st @ ext
      \<and> set (eventIndices ext) \<subseteq> {i}"
  unfolding keeps_def catchError_def emit_def by auto

lemma loopKeeps_catchError:
  assumes "keeps i st st1" and "loopKeeps (Suc i) (catchError s sets i e st1) st2"
  shows "loopKeeps i st st2"
proof -
  obtain e1 where e1: "trace (catchError s sets i e st1) = trace st @ e1"
      "set (eventIndices e1) \<subseteq> {i}"
    using keeps_catchError [OF assms(1)] by blast
  obtain e2 where e2: "trace st2 = trace (catchError s sets i e st1) @ e2"
      "\<forall>k \<in> set (eventIndices e2). Suc i \<le> k"
    using assms(2) unfolding loopKeeps_def by blast
  have "trace st2 = trace st @ (e1 @ e2) \<and> (\<forall>k \<in> set (eventIndices (e1 @ e2)). i \<le> k)"
    using e1 e2 by auto
  then have 1: "\<exists>ext. trace st2 = trace st @ ext \<and> (\<forall>k \<in> set (eventIndices ext). i \<le> k)"
    by blast
  have 2: "\<forall>j. j < i \<and> j < length (signedTXs st) \<longrightarrow> signedTXs st2 ! j = signedTXs st ! j"
    using assms unfolding keeps_def loopKeeps_def
    by (metis less_Suc_eq order_less_le_trans signedTXs_catchError)
  have 3: "length (signedTXs st) \<le> length (signedTXs st2)"
    using assms unfolding keeps_def loopKeeps_def by auto
  show ?thesis
    unfolding loopKeeps_def using 1 2 3 by blast
qed

lemma loopKeeps_forLoop: "loopKeeps i st (forLoop s sets i st)"
proof (induction s sets i st rule: forLoop.induct)
  case (1 s sets i st)
  show ?case
  proof (cases "i < length (signedTXs st)")
    case False
    then show ?thesis by (simp add: forLoop_done loopKeeps_refl)
  next
    case True
    let ?sa = "st\<lparr>tx := Some (signedTXs st ! i), retryNumber := 0\<rparr>"
    obtain r st1 where r: "retry s sets i (maxSigningAttempts (configuration s)) 1 ?sa = (r, st1)"
      by force
    have k: "keeps i st st1"
      using keeps_retry [of i ?sa s sets "maxSigningAttempts (configuration s)" 1] r
      by (auto intro: keeps_reset)
    show ?thesis
    proof (cases r)
      case None
      have "loopKeeps (Suc i) st1 (forLoop s sets (Suc i) st1)"
        using 1(1) [OF True r [symmetric] None] .
      with k have "loopKeeps i st (forLoop s sets (Suc i) st1)"
        by (rule keeps_loopKeeps)
      then show ?thesis using forLoop_step [OF True r] None by simp
    next
      case (Some e)
      show ?thesis
      proof (cases "abortOnFailure (configuration s)")
        case True
        have "loopKeeps i st (catchError s sets i e st1)"
          using loopKeeps_catchError [OF k loopKeeps_refl] .
        then show ?thesis using forLoop_step [OF \<open>i < length (signedTXs st)\<close> r] Some True by simp
      next
        case False
        have "loopKeeps (Suc i) (catchError s sets i e st1)
                (forLoop s sets (Suc i) (catchError s sets i e st1))"
          using 1(2) [OF True r [symmetric] Some refl False] .
        with k have "loopKeeps i st (forLoop s sets (Suc i) (catchError s sets i e st1))"
          by (rule loopKeeps_catchError)
        then show ?thesis using forLoop_step [OF True r] Some False by simp
      qed
    qed
  qed
qed

text \<open>The run ends where the loop from any of its heads ends.\<close>

lemma loopHead_final:
  "loopHead s sets i st \<Longrightarrow> forLoop s sets 0 (startState s sets) = forLoop s sets i st"
proof (induction rule: loopHead.induct)
  case start
  show ?case by simp
next
  case (resolved i st st1)
  then show ?case using forLoop_step [OF resolved(2,3)] by simp
next
  case (failed i st e st1)
  then show ?case using forLoop_step [OF failed(2,3)] by simp
qed

lemma headInv_start: "headInv sets 0 (startState s sets)"
  by (simp add: headInv_def tallied_def startState_def initialState_def)

lemma headInv_round:
  assumes h: "headInv sets i st" and lt: "i < length (signedTXs st)"
    and r: "retry s sets i t num (st\<lparr>tx := x, retryNumber := n\<rparr>) = (r, st1)"
  shows "headInv sets (Suc i) st1" and "headInv sets (Suc i) (catchError s sets i e st1)"
proof -
  let ?sa = "st\<lparr>tx := x, retryNumber := n\<rparr>"
  have k: "keeps i st st1"
    using keeps_retry [of i ?sa s sets t num] r by (auto intro: keeps_reset)
  then obtain ext where ext: "trace st1 = trace st @ ext" "set (eventIndices ext) \<subseteq> {i}"
    unfolding keeps_def by blast
  have "tallied ?sa"
    using h by (simp add: headInv_def tallied_def)
  then have ta: "tallied st1"
    using tallied_retry [of ?sa s sets i t num] r by simp
  have pe: "pendingHook st1 = None"
    using pendingHook_retry [of s sets i t num ?sa] r by simp
  have len: "length (signedTXs st1) \<le> length sets"
    using length_retry_le [of s sets i t num ?sa] r h by (simp add: headInv_def)
  have ev: "\<forall>k \<in> set (eventIndices (trace st1)). k < Suc i"
    using h ext by (auto simp: headInv_def)
  show "headInv sets (Suc i) st1"
    using len ev ta pe by (simp add: headInv_def)
  then show "headInv sets (Suc i) (catchError s sets i e st1)"
    by (simp add: headInv_def tallied_def catchError_def emit_def)
qed

lemma loopHead_headInv: "loopHead s sets i st \<Longrightarrow> headInv sets i st"
proof (induction rule: loopHead.induct)
  case start
  show ?case by (rule headInv_start)
next
  case (resolved i st st1)
  then show ?case using headInv_round(1) by blast
next
  case (failed i st e st1)
  then show ?case using headInv_round(2) by blast
qed


text \<open>The loop on a network that accepts every submission at a slot below the threshold.\<close>

lemma forLoop_quiet:
  assumes "\<forall>k t. \<exists>c. sendSignedTransaction (connection s) k t = Accepted c \<and> c < slot st + 150"
    and "onProgressCallback s" and "pendingHook st = None"
  shows "progressCalls (trace (forLoop s sets i st))
           = progressCalls (trace st) @ [i..<length (signedTXs st)]
       \<and> confirmedIndices (trace (forLoop s sets i st))
           = confirmedIndices (trace st) @ [i..<length (signedTXs st)]
       \<and> failureCalls (trace (forLoop s sets i st)) = failureCalls (trace st)
       \<and> successfulItems (forLoop s sets i st)
           = successfulItems st + (length (signedTXs st) - i)"
  using assms
proof (induction s sets i st rule: forLoop.induct)
  case (1 s sets i st)
  show ?case
  proof (cases "i < length (signedTXs st)")
    case False
    then show ?thesis by (simp add: forLoop_done)
  next
    case True
    let ?sa = "st\<lparr>tx := Some (signedTXs st ! i), retryNumber := 0\<rparr>"
    obtain c where c: "sendSignedTransaction (connection s) (sendCalls ?sa) (tx ?sa) = Accepted c"
        "c < slot ?sa + 150"
      using 1(3) by (metis State.select_convs(1) State.surjective State.update_convs(5,6))
    let ?sb = "?sa\<lparr>retryNumber := Suc (retryNumber ?sa), sendCalls := Suc (sendCalls ?sa),
         successfulItems := Suc (successfulItems ?sa),
         trace := trace ?sa @ [EvSendSignedTransaction i (tx ?sa) (Accepted c)]
            @ (if onProgressCallback s then [EvProgress i] else [])\<rparr>"
    have a: "attemptFn s sets i ?sa = (Resolved, ?sb)"
      using c 1(5) by (intro attemptFn_accepted_plain) auto
    have r: "retry s sets i (maxSigningAttempts (configuration s)) 1 ?sa = (None, ?sb)"
      using retry_resolved [of s sets i ?sa] a by simp
    have q: "\<forall>k t. \<exists>c. sendSignedTransaction (connection s) k t = Accepted c \<and> c < slot ?sb + 150"
      using 1(3) by simp
    have pn: "pendingHook ?sb = None"
      using 1(5) by simp
    note ih = 1(1) [OF True r [symmetric] refl q 1(4) pn]
    have u: "[i..<length (signedTXs st)] = i # [Suc i..<length (signedTXs st)]"
      using True by (simp add: upt_conv_Cons)
    show ?thesis
      using forLoop_step [OF True r] ih True 1(4) by (simp add: u)
  qed
qed

text \<open>The first thing the loop does at an index is to submit the transaction stored there.\<close>

lemma forLoop_first_event:
  assumes "i < length (signedTXs st)"
  shows "\<exists>rest. trace (forLoop s sets i st) =
      trace st @ EvSendSignedTransaction i (Some (signedTXs st ! i))
         (sendSignedTransaction (connection s) (sendCalls st) (Some (signedTXs st ! i))) # rest"
proof -
  let ?sa = "st\<lparr>tx := Some (signedTXs st ! i), retryNumber := 0\<rparr>"
  let ?ev = "EvSendSignedTransaction i (Some (signedTXs st ! i))
         (sendSignedTransaction (connection s) (sendCalls st) (Some (signedTXs st ! i)))"
  obtain r st1 where r: "retry s sets i (maxSigningAttempts (configuration s)) 1 ?sa = (r, st1)"
    by force
  obtain rest where rest: "trace st1 = trace st @ ?ev # rest"
    using retry_first_event [of s sets i "maxSigningAttempts (configuration s)" 1 ?sa] r
    by auto
  have c: "\<exists>x. trace (catchError s sets i e st1) = trace st1 @ x" for e
    by (simp add: catchError_def emit_def)
  have l: "\<exists>x. trace (forLoop s sets (Suc i) st') = trace st' @ x" for st'
    using loopKeeps_forLoop [of "Suc i" st' s sets] unfolding loopKeeps_def by blast
  have "\<exists>x. trace (forLoop s sets i st) = trace st1 @ x"
  proof (cases r)
    case None
    then show ?thesis using forLoop_step [OF assms r] l by simp
  next
    case (Some e)
    obtain x where x: "trace (catchError s sets i e st1) = trace st1 @ x"
      using c by blast
    obtain y where y: "trace (forLoop s sets (Suc i) (catchError s sets i e st1))
        = trace (catchError s sets i e st1) @ y"
      using l by blast
    show ?thesis
      using forLoop_step [OF assms r] Some x y by (cases "abortOnFailure (configuration s)") auto
  qed
  then show ?thesis using rest by auto
qed


text \<open>
  The trace of a whole run, seen from the round at index \<open>i\<close>: what was there at the head
  of the round, then the events of \<open>retry\<close> (all of index \<open>i\<close>, none of them a call of the
  failure callback), then the call of the failure callback if \<open>retry\<close> failed, then events
  of later indices only, and nothing at all after a failure when \<open>abortOnFailure\<close> is set.
\<close>

lemma round_trace:
  assumes "loopHead s sets i st" and "i < length (signedTXs st)"
    and "retry s sets i (maxSigningAttempts (configuration s)) 1
           (st\<lparr>tx := Some (signedTXs st ! i), retryNumber := 0\<rparr>) = (r, st1)"
  shows "\<exists>e1 e2. trace st1 = trace st @ e1 \<and> set (eventIndices e1) \<subseteq> {i}
      \<and> failureCalls e1 = []
      \<and> trace (forLoop s sets 0 (startState s sets))
          = trace st @ e1 @ failureEvent s sets i r st1 @ e2
      \<and> (\<forall>k \<in> set (eventIndices e2). Suc i \<le> k)
      \<and> (r \<noteq> None \<and> abortOnFailure (configuration s) \<longrightarrow> e2 = [])"
proof -
  let ?sa = "st\<lparr>tx := Some (signedTXs st ! i), retryNumber := 0\<rparr>"
  have "keeps i st st1"
    using keeps_retry [of i ?sa s sets "maxSigningAttempts (configuration s)" 1] assms(3)
    by (auto intro: keeps_reset)
  then obtain e1 where e1: "trace st1 = trace st @ e1" "set (eventIndices e1) \<subseteq> {i}"
      "failureCalls e1 = []"
    unfolding keeps_def by blast
  have c: "trace (catchError s sets i e st1) = trace st1 @ failureEvent s sets i (Some e) st1" for e
    by (simp add: catchError_def emit_def failureEvent_def)
  have l: "\<exists>x. trace (forLoop s sets (Suc i) st') = trace st' @ x
             \<and> (\<forall>k \<in> set (eventIndices x). Suc i \<le> k)" for st'
    using loopKeeps_forLoop [of "Suc i" st' s sets] unfolding loopKeeps_def by blast
  have fin: "forLoop s sets 0 (startState s sets) = forLoop s sets i st"
    using assms(1) by (rule loopHead_final)
  have "\<exists>e2. trace (forLoop s sets i st) = trace st1 @ failureEvent s sets i r st1 @ e2
      \<and> (\<forall>k \<in> set (eventIndices e2). Suc i \<le> k)
      \<and> (r \<noteq> None \<and> abortOnFailure (configuration s) \<longrightarrow> e2 = [])"
  proof (cases r)
    case None
    then show ?thesis
      using forLoop_step [OF assms(2,3)] l [of st1] by (simp add: failureEvent_def)
  next
    case (Some e)
    show ?thesis
    proof (cases "abortOnFailure (configuration s)")
      case True
      then show ?thesis
        using forLoop_step [OF assms(2,3)] Some c [of e] by simp
    next
      case False
      then show ?thesis
        using forLoop_step [OF assms(2,3)] Some c [of e] l [of "catchError s sets i e st1"]
        by auto
    qed
  qed
  then show ?thesis using e1 fin by auto
qed

lemma failureCalls_later:
  "\<forall>k \<in> set (eventIndices evs). i < k \<Longrightarrow>
     filter (\<lambda>f. fst (snd f) = i) (failureCalls evs) = []"
  "\<forall>k \<in> set (eventIndices evs). k < i \<Longrightarrow>
     filter (\<lambda>f. fst (snd f) = i) (failureCalls evs) = []"
  using failureCalls_indices [of _ _ _ _ evs] by (fastforce simp: filter_empty_conv)+

text \<open>\<^verbatim>\<open>xs[n - 1]\<close> for a count \<open>n\<close>, written out.\<close>

lemma arrayGet_before:
  "arrayGet xs (int n - 1) = (if 0 < n \<and> n \<le> length xs then Some (xs ! (n - 1)) else None)"
  by (auto simp: arrayGet_def nat_diff_distrib')

text \<open>
  The call of the failure callback for a round that fails, in the trace of the whole run;
  the count it is given is the number of submissions accepted up to there.
\<close>

lemma failure_call_at:
  assumes "publicKey (wallet s) \<noteq> None" and "instructionSets s = Some sets" and "sets \<noteq> []"
    and "loopHead s sets i st" and "i < length (signedTXs st)"
    and "retry s sets i (maxSigningAttempts (configuration s)) 1
           (st\<lparr>tx := Some (signedTXs st ! i), retryNumber := 0\<rparr>) = (Some e, st1)"
    and "onFailureCallback s"
  shows "filter (\<lambda>f. fst (snd f) = i) (failureCalls (trace (snd (send s))))
           = [(e, i, successfulItems st1, arrayGet sets (int (successfulItems st1) - 1))]
       \<and> successfulItems st1 = length (confirmedIndices (trace st1))"
proof -
  obtain e1 e2 where t: "set (eventIndices e1) \<subseteq> {i}" "failureCalls e1 = []"
      "trace (forLoop s sets 0 (startState s sets))
          = trace st @ e1 @ failureEvent s sets i (Some e) st1 @ e2"
      "\<forall>k \<in> set (eventIndices e2). Suc i \<le> k"
    using round_trace [OF assms(4,5,6)] by blast
  have "\<forall>k \<in> set (eventIndices (trace st)). k < i"
    using loopHead_headInv [OF assms(4)] by (simp add: headInv_def)
  then have before: "filter (\<lambda>f. fst (snd f) = i) (failureCalls (trace st)) = []"
    by (rule failureCalls_later(2))
  have "\<forall>k \<in> set (eventIndices e2). i < k"
    using t(4) by auto
  then have after: "filter (\<lambda>f. fst (snd f) = i) (failureCalls e2) = []"
    by (rule failureCalls_later(1))
  have "headInv sets (Suc i) st1"
    using headInv_round(1) [OF loopHead_headInv [OF assms(4)] assms(5,6)] .
  then have su: "successfulItems st1 = length (confirmedIndices (trace st1))"
    by (simp add: headInv_def tallied_def)
  show ?thesis
    using send_runs [OF assms(1,2,3)] t(2,3) before after assms(7) su
    by (simp add: failureEvent_def)
qed

text \<open>
  The rebuild where it does not throw: when every instruction set from the start index on
  has instructions, the loop replaces the array from there by the transactions of these
  instruction sets, and the wallet is handed all of them.
\<close>

lemma rebuildLoop_closed:
  assumes "j \<le> length txs" and "length txs \<le> length sets"
    and "\<forall>k. j \<le> k \<and> k < length sets \<longrightarrow> instructions (sets ! k) \<noteq> []"
  shows "rebuildLoop pk sets bh j txs = (None, take j txs @ map (transactionOf pk bh) (drop j sets))"
  using assms
proof (induction pk sets bh j txs rule: rebuildLoop.induct)
  case (1 pk sets bh j txs)
  show ?case
  proof (cases "j < length sets")
    case True
    let ?v = "transactionOf pk bh (sets ! j)"
    have b: "buildTransaction pk bh (sets ! j) = Inr ?v"
      using 1(4) True by (simp add: buildTransaction_def)
    have len: "Suc j \<le> length (arraySet txs j ?v)" "length (arraySet txs j ?v) \<le> length sets"
      using 1(2,3) True by (auto simp: length_arraySet)
    have ne: "\<forall>k. Suc j \<le> k \<and> k < length sets \<longrightarrow> instructions (sets ! k) \<noteq> []"
      using 1(4) by simp
    have tk: "take (Suc j) (arraySet txs j ?v) = take j txs @ [?v]"
      using 1(2) by (cases "j < length txs") (auto simp: arraySet_def take_Suc_conv_app_nth)
    have "rebuildLoop pk sets bh j txs = rebuildLoop pk sets bh (Suc j) (arraySet txs j ?v)"
      using True b by (simp add: rebuildLoop_step)
    also have "\<dots> = (None, take (Suc j) (arraySet txs j ?v)
                      @ map (transactionOf pk bh) (drop (Suc j) sets))"
      using 1(1) [OF True b len ne] .
    also have "\<dots> = (None, take j txs @ map (transactionOf pk bh) (drop j sets))"
      using True by (simp add: tk Cons_nth_drop_Suc [symmetric])
    finally show ?thesis .
  next
    case False
    with 1(2,3) show ?thesis by (simp add: rebuildLoop_step)
  qed
qed

lemma nth_map_drop:
  "k \<le> j \<Longrightarrow> j < length xs \<Longrightarrow> map f (drop k xs) ! (j - k) = f (xs ! j)"
  by simp

lemma signAndRebuild_closed:
  assumes "index \<le> length (signedTXs st)" and "length (signedTXs st) \<le> length sets"
    and "\<forall>k. index \<le> k \<and> k < length sets \<longrightarrow> instructions (sets ! k) \<noteq> []"
  shows "signAndRebuildTransactionsFromInstructionSets s sets index blockhash attempt st =
     (Inr (arrayGet (map (signInPlace (wallet s))
                      (map (transactionOf (publicKey (wallet s)) blockhash) (drop index sets))) 0),
      st\<lparr>signedTXs := take index (signedTXs st)
                          @ map (signInPlace (wallet s))
                              (map (transactionOf (publicKey (wallet s)) blockhash) (drop index sets)),
         trace := trace st @ (if onReSignCallback s then [EvReSign attempt index] else [])
                    @ [EvSignAllTransactions
                         (map (transactionOf (publicKey (wallet s)) blockhash) (drop index sets))]\<rparr>)"
  using assms
  by (simp add: signAndRebuild_eq rebuildLoop_closed)

text \<open>
  What C1 describes, where the rebuild does not throw. Let an attempt at index \<open>i\<close> with
  no hook pending be accepted at a slot 150 or more above the baseline, while the array
  has an index \<open>i + 1\<close> and every instruction set above position \<open>i\<close> has instructions.
  Then the attempt resolves; slot and blockhash have been fetched after the acceptance and
  are the new baseline; every index above \<open>i\<close> holds the transaction of the instruction
  set at its position, built on the new blockhash and handed to the wallet; the indices up
  to \<open>i\<close> are untouched; and the next event of the loop is the submission of the rebuilt
  transaction of \<open>i + 1\<close>.
\<close>

lemma attemptFn_reanchors:
  assumes "sendSignedTransaction (connection s) (sendCalls st) (tx st) = Accepted c"
    and "slot st + 150 \<le> c" and "Suc i < length (signedTXs st)"
    and "length (signedTXs st) \<le> length sets" and "pendingHook st = None"
    and "\<forall>k. Suc i \<le> k \<and> k < length sets \<longrightarrow> instructions (sets ! k) \<noteq> []"
  shows "\<exists>st' r rest.
      attemptFn s sets i st = (Resolved, st')
    \<and> slot st' = getSlot (connection s) (slotCalls st)
    \<and> currentBlock st' = getLatestBlockhash (connection s) (blockhashCalls st)
    \<and> trace st' = trace st @ [EvSendSignedTransaction i (tx st) (Accepted c)]
         @ (if onProgressCallback s then [EvProgress i] else [])
         @ [EvGetSlot (slot st'), EvGetLatestBlockhash (currentBlock st')]
         @ (if onReSignCallback s then [EvReSign 0 (Suc i)] else [])
         @ [EvSignAllTransactions
              (map (transactionOf (publicKey (wallet s)) (currentBlock st')) (drop (Suc i) sets))]
    \<and> (\<forall>j. i < j \<and> j < length sets \<longrightarrow>
           signedTXs st' ! j
             = signInPlace (wallet s)
                 (transactionOf (publicKey (wallet s)) (currentBlock st') (sets ! j)))
    \<and> (\<forall>j. j \<le> i \<longrightarrow> signedTXs st' ! j = signedTXs st ! j)
    \<and> trace (forLoop s sets (Suc i) st')
         = trace st' @ EvSendSignedTransaction (Suc i)
             (Some (signInPlace (wallet s)
                (transactionOf (publicKey (wallet s)) (currentBlock st') (sets ! Suc i)))) r
           # rest"
proof -
  let ?bh = "getLatestBlockhash (connection s) (blockhashCalls st)"
  let ?new = "map (signInPlace (wallet s)) (map (transactionOf (publicKey (wallet s)) ?bh) (drop (Suc i) sets))"
  let ?txs = "take (Suc i) (signedTXs st) @ ?new"
  let ?sent = "st\<lparr>retryNumber := Suc (retryNumber st), sendCalls := Suc (sendCalls st),
                    trace := trace st @ [EvSendSignedTransaction i (tx st) (Accepted c)]\<rparr>"
  let ?mid = "?sent\<lparr>successfulItems := Suc (successfulItems ?sent),
                 slotCalls := Suc (slotCalls ?sent), blockhashCalls := Suc (blockhashCalls ?sent),
                 trace := trace ?sent @ (if onProgressCallback s then [EvProgress i] else [])
                    @ [EvGetSlot (getSlot (connection s) (slotCalls ?sent)),
                       EvGetLatestBlockhash (getLatestBlockhash (connection s) (blockhashCalls ?sent))],
                 slot := getSlot (connection s) (slotCalls ?sent),
                 currentBlock := getLatestBlockhash (connection s) (blockhashCalls ?sent)\<rparr>"
  have k: "Suc i \<le> length (signedTXs ?mid)" "length (signedTXs ?mid) \<le> length sets"
    using assms(3,4) by simp_all
  note sr = signAndRebuild_closed [OF k assms(6), of s ?bh 0]
  obtain st' where a: "attemptFn s sets i st = (Resolved, st')"
    and f: "slot st' = getSlot (connection s) (slotCalls st)" "currentBlock st' = ?bh"
      "signedTXs st' = ?txs"
      "trace st' = trace st @ [EvSendSignedTransaction i (tx st) (Accepted c)]
         @ (if onProgressCallback s then [EvProgress i] else [])
         @ [EvGetSlot (getSlot (connection s) (slotCalls st)), EvGetLatestBlockhash ?bh]
         @ (if onReSignCallback s then [EvReSign 0 (Suc i)] else [])
         @ [EvSignAllTransactions
              (map (transactionOf (publicKey (wallet s)) ?bh) (drop (Suc i) sets))]"
      "sendCalls st' = Suc (sendCalls st)"
    using assms(1,2,3,5) sr by (simp add: attemptFn_eq Let_def landHook_none)
  have above: "signedTXs st' ! j
      = signInPlace (wallet s) (transactionOf (publicKey (wallet s)) (currentBlock st') (sets ! j))"
    if "i < j \<and> j < length sets" for j
    using that assms(3)
      nth_map_drop [of "Suc i" j sets
        "signInPlace (wallet s) \<circ> transactionOf (publicKey (wallet s)) ?bh"]
    unfolding f by (simp add: nth_append del: nth_map nth_drop)
  have below: "signedTXs st' ! j = signedTXs st ! j" if "j \<le> i" for j
    using that assms(3) unfolding f by (simp add: nth_append)
  have len: "Suc i < length (signedTXs st')"
    using assms(3,4) unfolding f by simp
  obtain rest where n: "trace (forLoop s sets (Suc i) st') =
      trace st' @ EvSendSignedTransaction (Suc i) (Some (signedTXs st' ! Suc i))
         (sendSignedTransaction (connection s) (sendCalls st') (Some (signedTXs st' ! Suc i))) # rest"
    using forLoop_first_event [OF len] by blast
  have nx: "signedTXs st' ! Suc i
      = signInPlace (wallet s) (transactionOf (publicKey (wallet s)) (currentBlock st') (sets ! Suc i))"
    using above [of "Suc i"] assms(3,4) by simp
  show ?thesis
    using a f(1,2) f(4) above below n unfolding nx by auto
qed

text \<open>
  What C2 describes, where the rebuild does not throw and the hook is in time. Let the
  hook run for a timeout at index \<open>i\<close> of the array, and let every instruction set from
  position \<open>i\<close> on have instructions. If the slot it asks for is 150 or more above the
  baseline: slot and blockhash are fetched, the re-sign callback gets the number of the
  failed attempt and \<open>i\<close>, every index from \<open>i\<close> on is rebuilt on the new blockhash and
  handed to the wallet, the indices below \<open>i\<close> are untouched, and \<open>tx\<close> is the rebuilt
  transaction of \<open>i\<close>. If not, the baseline, the array and \<open>tx\<close> are unchanged. The next
  attempt that starts from there submits \<open>tx\<close>.
\<close>

lemma onRetry_reanchors:
  assumes "i < length (signedTXs st)" and "length (signedTXs st) \<le> length sets"
    and "\<forall>k. i \<le> k \<and> k < length sets \<longrightarrow> instructions (sets ! k) \<noteq> []"
  shows "\<exists>st2 r rest.
      onRetry s sets i (ResultErr ''timeout'') num st = st2
    \<and> (if slot st + 150 \<le> getSlot (connection s) (slotCalls st)
        then slot st2 = getSlot (connection s) (Suc (slotCalls st))
           \<and> currentBlock st2 = getLatestBlockhash (connection s) (blockhashCalls st)
           \<and> trace st2 = trace st
                @ [EvGetSlot (getSlot (connection s) (slotCalls st)),
                   EvGetSlot (slot st2), EvGetLatestBlockhash (currentBlock st2)]
                @ (if onReSignCallback s then [EvReSign num i] else [])
                @ [EvSignAllTransactions
                     (map (transactionOf (publicKey (wallet s)) (currentBlock st2)) (drop i sets))]
           \<and> (\<forall>j. i \<le> j \<and> j < length sets \<longrightarrow>
                 signedTXs st2 ! j
                   = signInPlace (wallet s)
                       (transactionOf (publicKey (wallet s)) (currentBlock st2) (sets ! j)))
           \<and> (\<forall>j. j < i \<longrightarrow> signedTXs st2 ! j = signedTXs st ! j)
           \<and> tx st2 = Some (signInPlace (wallet s)
                 (transactionOf (publicKey (wallet s)) (currentBlock st2) (sets ! i)))
        else slot st2 = slot st \<and> currentBlock st2 = currentBlock st
           \<and> signedTXs st2 = signedTXs st \<and> tx st2 = tx st
           \<and> trace st2 = trace st @ [EvGetSlot (getSlot (connection s) (slotCalls st))])
    \<and> trace (snd (retryLoop s sets i t (Suc num) errs st2))
         = trace st2 @ EvSendSignedTransaction i (tx st2) r # rest"
proof -
  let ?st2 = "onRetry s sets i (ResultErr ''timeout'') num st"
  let ?bh = "getLatestBlockhash (connection s) (blockhashCalls st)"
  obtain rest where nx: "trace (snd (retryLoop s sets i t (Suc num) errs ?st2))
      = trace ?st2 @ EvSendSignedTransaction i (tx ?st2)
          (sendSignedTransaction (connection s) (sendCalls ?st2) (tx ?st2)) # rest"
    using retryLoop_first_event by blast
  have body: "if slot st + 150 \<le> getSlot (connection s) (slotCalls st)
        then slot ?st2 = getSlot (connection s) (Suc (slotCalls st))
           \<and> currentBlock ?st2 = ?bh
           \<and> trace ?st2 = trace st
                @ [EvGetSlot (getSlot (connection s) (slotCalls st)),
                   EvGetSlot (slot ?st2), EvGetLatestBlockhash (currentBlock ?st2)]
                @ (if onReSignCallback s then [EvReSign num i] else [])
                @ [EvSignAllTransactions
                     (map (transactionOf (publicKey (wallet s)) (currentBlock ?st2)) (drop i sets))]
           \<and> (\<forall>j. i \<le> j \<and> j < length sets \<longrightarrow>
                 signedTXs ?st2 ! j
                   = signInPlace (wallet s)
                       (transactionOf (publicKey (wallet s)) (currentBlock ?st2) (sets ! j)))
           \<and> (\<forall>j. j < i \<longrightarrow> signedTXs ?st2 ! j = signedTXs st ! j)
           \<and> tx ?st2 = Some (signInPlace (wallet s)
                 (transactionOf (publicKey (wallet s)) (currentBlock ?st2) (sets ! i)))
        else slot ?st2 = slot st \<and> currentBlock ?st2 = currentBlock st
           \<and> signedTXs ?st2 = signedTXs st \<and> tx ?st2 = tx st
           \<and> trace ?st2 = trace st @ [EvGetSlot (getSlot (connection s) (slotCalls st))]"
  proof (cases "slot st + 150 \<le> getSlot (connection s) (slotCalls st)")
    case True
    let ?mid = "st\<lparr>slotCalls := Suc (Suc (slotCalls st)), blockhashCalls := Suc (blockhashCalls st),
                 trace := trace st @ [EvGetSlot (getSlot (connection s) (slotCalls st)),
                    EvGetSlot (getSlot (connection s) (Suc (slotCalls st))),
                    EvGetLatestBlockhash ?bh],
                 slot := getSlot (connection s) (Suc (slotCalls st)), currentBlock := ?bh\<rparr>"
    have k: "i \<le> length (signedTXs ?mid)" "length (signedTXs ?mid) \<le> length sets"
      using assms(1,2) by simp_all
    note sr = signAndRebuild_closed [OF k assms(3), of s ?bh num]
    have o: "?st2 = ?mid\<lparr>signedTXs := take i (signedTXs st)
                 @ map (signInPlace (wallet s))
                     (map (transactionOf (publicKey (wallet s)) ?bh) (drop i sets)),
               trace := trace ?mid @ (if onReSignCallback s then [EvReSign num i] else [])
                    @ [EvSignAllTransactions
                         (map (transactionOf (publicKey (wallet s)) ?bh) (drop i sets))],
               tx := arrayGet (map (signInPlace (wallet s))
                      (map (transactionOf (publicKey (wallet s)) ?bh) (drop i sets))) 0\<rparr>"
      using True sr
      by (simp add: onRetry_def Let_def callGetSlot_eq getSlotAndCurrentBlockHash_eq)
    have il: "i < length sets" using assms(1,2) by simp
    have nth: "map (signInPlace (wallet s)) (map (transactionOf (publicKey (wallet s)) ?bh) (drop i sets))
                 ! (j - i)
               = signInPlace (wallet s) (transactionOf (publicKey (wallet s)) ?bh (sets ! j))"
      if "i \<le> j \<and> j < length sets" for j
      using that
        nth_map_drop [of i j sets
          "signInPlace (wallet s) \<circ> transactionOf (publicKey (wallet s)) ?bh"]
      by (simp del: nth_drop nth_map)
    have hd0: "arrayGet (map (signInPlace (wallet s))
                 (map (transactionOf (publicKey (wallet s)) ?bh) (drop i sets))) 0
               = Some (signInPlace (wallet s) (transactionOf (publicKey (wallet s)) ?bh (sets ! i)))"
      using il nth [of i] by (simp add: arrayGet_def del: nth_drop nth_map)
    have above: "(take i (signedTXs st) @ map (signInPlace (wallet s))
                   (map (transactionOf (publicKey (wallet s)) ?bh) (drop i sets))) ! j
               = signInPlace (wallet s) (transactionOf (publicKey (wallet s)) ?bh (sets ! j))"
      if "i \<le> j \<and> j < length sets" for j
      using that nth [of j] assms(1) by (simp add: nth_append del: nth_drop nth_map)
    have below: "(take i (signedTXs st) @ ys) ! j = signedTXs st ! j" if "j < i" for j ys
      using that assms(1) by (simp add: nth_append)
    show ?thesis
      using True above below unfolding o
      by (simp add: hd0 del: nth_drop nth_map map_map)
  next
    case False
    then show ?thesis
      by (simp add: onRetry_def Let_def callGetSlot_eq)
  qed
  show ?thesis
    using body nx by blast
qed

text \<open>
  A hook that is not in time. On a network where the slot moves and every submission times
  out, the transaction is rebuilt on the new blockhash by the first hook. When the hooks
  are in time, the first retry submits the rebuilt transaction; when they are not, the
  first retry submits the transaction as it was, and only the second one the rebuilt
  transaction.
\<close>

lemma late_hook_retries_old_transaction:
  "submittedAnchors (trace (snd (send (demoSender (Some [groupA]) driftTimeoutConnection 3 True))))
     = [(0, ''h0''), (0, ''h1''), (0, ''h1'')]
   \<and> submittedAnchors (trace (snd (send (demoSender (Some [groupA]) lateHookConnection 3 True))))
     = [(0, ''h0''), (0, ''h0''), (0, ''h1'')]"
  by (simp add: run_defs demo_defs driftTimeoutConnection_def lateHookConnection_def
      numeral_3_eq_3 submittedAnchors_def anchorOf_def)

text \<open>
  A round that fails after accepted submissions. The last instruction set of the batch has
  no instructions, and every submission is accepted far above the baseline: each attempt
  at index 0 is accepted and counted, fetches slot and blockhash and throws in the rebuild.
  After the fourth attempt no timeout is left, \<open>retry\<close> rejects with the error of the
  rebuild, and the failure callback gets the count 4 for a batch of two transactions, and
  \<^verbatim>\<open>undefined\<close> for the position 3 of a list of three.
\<close>

lemma round_fails_after_acceptances:
  "failureCalls (trace (snd (send (demoSender (Some [groupA, groupB, emptyGroup]) farConnection 3 True))))
     = [(Error ''No instructions'', 0, 4, None)]
   \<and> progressCalls (trace (snd (send (demoSender (Some [groupA, groupB, emptyGroup]) farConnection 3 True))))
     = [0, 0, 0, 0]"
  by (simp add: run_defs demo_defs farConnection_def numeral_3_eq_3)

section \<open>The claims\<close>

subsection \<open>C1\<close>

text \<open>
  C1 on the code: a batch whose second instruction set has no instructions, on a network
  where every submission is accepted at slot 200 while the baseline is the slot 0 fetched
  at the start. The array holds the transactions of \<open>groupA\<close> and \<open>groupB\<close>, built on
  \<open>h0\<close>. The submission of index 0 is accepted 200 slots above the baseline: slot 200 and
  the blockhash \<open>h1\<close> are fetched, the re-sign callback is called, and the rebuild from
  index 1 throws at the instruction set without instructions, before it has written to the
  array and before the wallet is called. The library runs the attempt again: index 0 is
  submitted and counted a second time. Then index 1 is submitted as it was built at the
  start, on the old blockhash \<open>h0\<close>, while the baseline is \<open>h1\<close>.
\<close>

theorem reanchor_stops_at_empty_group:
  "trace (snd (send (demoSender (Some [groupA, emptyGroup, groupB]) driftConnection 3 True)))
     = [EvGetSlot 0, EvGetLatestBlockhash ''h0'',
        EvSignAllTransactions
          [\<lparr>feePayer = Some ''payer'', recentBlockhash = ''h0'',
             txInstructions = [TransactionInstruction 1], signatures = [Signer ''a'']\<rparr>,
           \<lparr>feePayer = Some ''payer'', recentBlockhash = ''h0'',
             txInstructions = [TransactionInstruction 2, TransactionInstruction 3],
             signatures = []\<rparr>],
        EvSendSignedTransaction 0
          (Some \<lparr>feePayer = Some ''payer'', recentBlockhash = ''h0'',
             txInstructions = [TransactionInstruction 1],
             signatures = [Signer ''a'', Signer ''payer'']\<rparr>)
          (Accepted 200),
        EvProgress 0, EvGetSlot 200, EvGetLatestBlockhash ''h1'', EvReSign 0 1,
        EvSendSignedTransaction 0
          (Some \<lparr>feePayer = Some ''payer'', recentBlockhash = ''h0'',
             txInstructions = [TransactionInstruction 1],
             signatures = [Signer ''a'', Signer ''payer'']\<rparr>)
          (Accepted 200),
        EvProgress 0,
        EvSendSignedTransaction 1
          (Some \<lparr>feePayer = Some ''payer'', recentBlockhash = ''h0'',
             txInstructions = [TransactionInstruction 2, TransactionInstruction 3],
             signatures = [Signer ''payer'']\<rparr>)
          (Accepted 200),
        EvProgress 1]
   \<and> submittedAnchors
        (trace (snd (send (demoSender (Some [groupA, emptyGroup, groupB]) driftConnection 3 True))))
     = [(0, ''h0''), (0, ''h0''), (1, ''h0'')]
   \<and> currentBlock (snd (send (demoSender (Some [groupA, emptyGroup, groupB]) driftConnection 3 True)))
     = ''h1''
   \<and> slot (snd (send (demoSender (Some [groupA, emptyGroup, groupB]) driftConnection 3 True))) = 200
   \<and> successfulItems
        (snd (send (demoSender (Some [groupA, emptyGroup, groupB]) driftConnection 3 True))) = 3"
  by (simp add: run_defs demo_defs driftConnection_def numeral_3_eq_3
      submittedAnchors_def anchorOf_def)

subsection \<open>C2\<close>

text \<open>
  C2 on the code: a batch whose first instruction set has no instructions, with
  \<open>maxSigningAttempts = 2\<close>, on a network where every submission times out and the slot
  moves by 200 between two requests. The array holds the transaction of \<open>groupA\<close>, built
  on \<open>h0\<close>. After the first timeout the hook finds the slot 200 above the baseline,
  fetches slot 400 and the blockhash \<open>h1\<close> and calls the re-sign callback; the rebuild
  from index 0 throws at the instruction set without instructions, so that the wallet is
  not called and \<open>tx\<close> is not assigned. The retry submits the transaction as it was, on
  the old blockhash \<open>h0\<close>, while the baseline is slot 400 and \<open>h1\<close>.
\<close>

theorem retry_keeps_old_transaction:
  "trace (snd (send (demoSender (Some [emptyGroup, groupA]) driftTimeoutConnection 2 True)))
     = [EvGetSlot 0, EvGetLatestBlockhash ''h0'',
        EvSignAllTransactions
          [\<lparr>feePayer = Some ''payer'', recentBlockhash = ''h0'',
             txInstructions = [TransactionInstruction 1], signatures = [Signer ''a'']\<rparr>],
        EvSendSignedTransaction 0
          (Some \<lparr>feePayer = Some ''payer'', recentBlockhash = ''h0'',
             txInstructions = [TransactionInstruction 1],
             signatures = [Signer ''a'', Signer ''payer'']\<rparr>)
          (Failed ''timeout''),
        EvGetSlot 200, EvGetSlot 400, EvGetLatestBlockhash ''h1'', EvReSign 1 0,
        EvSendSignedTransaction 0
          (Some \<lparr>feePayer = Some ''payer'', recentBlockhash = ''h0'',
             txInstructions = [TransactionInstruction 1],
             signatures = [Signer ''a'', Signer ''payer'']\<rparr>)
          (Failed ''timeout''),
        EvFailure (Error ''MAX_RESIGN_ATTEMPTS_REACHED'') 0 0 None]
   \<and> submittedAnchors
        (trace (snd (send (demoSender (Some [emptyGroup, groupA]) driftTimeoutConnection 2 True))))
     = [(0, ''h0''), (0, ''h0'')]
   \<and> currentBlock (snd (send (demoSender (Some [emptyGroup, groupA]) driftTimeoutConnection 2 True)))
     = ''h1''
   \<and> slot (snd (send (demoSender (Some [emptyGroup, groupA]) driftTimeoutConnection 2 True))) = 400"
  by (simp add: run_defs demo_defs driftTimeoutConnection_def numeral_2_eq_2
      submittedAnchors_def anchorOf_def)

subsection \<open>C3\<close>




subsection \<open>C4\<close>

text \<open>
  C4, as the code has it. With a public key on the wallet, \<^verbatim>\<open>send\<close> throws
  \<^verbatim>\<open>Error('No instruction sets provided')\<close> for a list that is missing or empty, and no
  collaborator has been called. A list that is not empty but holds only instruction sets
  without instructions is not rejected: \<^verbatim>\<open>send\<close> fetches slot and blockhash, hands the
  wallet an empty list of transactions, submits nothing and returns.
\<close>

theorem send_empty_batch:
  assumes "publicKey (wallet s) \<noteq> None"
  shows "(instructionSets s = None \<or> instructionSets s = Some [] \<longrightarrow>
            send s = (Some (Error ''No instruction sets provided''), initialState)
            \<and> trace (snd (send s)) = [])
       \<and> (\<forall>sets. instructionSets s = Some sets \<and> sets \<noteq> []
              \<and> (\<forall>g \<in> set sets. instructions g = []) \<longrightarrow>
            fst (send s) = None
            \<and> trace (snd (send s)) =
                [EvGetSlot (getSlot (connection s) 0),
                 EvGetLatestBlockhash (getLatestBlockhash (connection s) 0),
                 EvSignAllTransactions []])"
proof (intro conjI impI allI)
  assume e: "instructionSets s = None \<or> instructionSets s = Some []"
  show "send s = (Some (Error ''No instruction sets provided''), initialState)"
    using assms e by (rule send_throws(2))
  then show "trace (snd (send s)) = []"
    by (simp add: initialState_def)
next
  fix sets
  assume a: "instructionSets s = Some sets \<and> sets \<noteq> [] \<and> (\<forall>g \<in> set sets. instructions g = [])"
  have r: "send s = (None, forLoop s sets 0 (startState s sets))"
    using assms a by (simp add: send_runs)
  from a have f': "filter (\<lambda>i. instructions i \<noteq> []) sets = []"
    by (simp add: filter_empty_conv)
  have l: "forLoop s sets 0 (startState s sets) = startState s sets"
    by (subst forLoop.simps) (simp add: startState_def f')
  show "fst (send s) = None" using r by simp
  show "trace (snd (send s)) =
          [EvGetSlot (getSlot (connection s) 0),
           EvGetLatestBlockhash (getLatestBlockhash (connection s) 0),
           EvSignAllTransactions []]"
    using r l by (simp add: startState_def f')
qed

theorem send_empty_batch_witness:
  "send (demoSender (Some []) quietConnection 3 True)
     = (Some (Error ''No instruction sets provided''), initialState)
   \<and> trace (snd (send (demoSender (Some []) quietConnection 3 True))) = []
   \<and> fst (send (demoSender (Some [emptyGroup, emptyGroup]) quietConnection 3 True)) = None
   \<and> trace (snd (send (demoSender (Some [emptyGroup, emptyGroup]) quietConnection 3 True)))
       = [EvGetSlot 7, EvGetLatestBlockhash ''h'', EvSignAllTransactions []]"
proof -
  have pk: "publicKey (wallet (demoSender b quietConnection 3 True)) \<noteq> None" for b
    by (simp add: demo_defs)
  have 1: "instructionSets (demoSender (Some []) quietConnection 3 True) = Some []"
    by (simp add: demo_defs)
  have 2: "instructionSets (demoSender (Some [emptyGroup, emptyGroup]) quietConnection 3 True)
             = Some [emptyGroup, emptyGroup]
           \<and> [emptyGroup, emptyGroup] \<noteq> []
           \<and> (\<forall>g \<in> set [emptyGroup, emptyGroup]. instructions g = [])"
    by (simp add: demo_defs)
  have c: "getSlot (connection (demoSender b quietConnection 3 True)) 0 = 7"
     "getLatestBlockhash (connection (demoSender b quietConnection 3 True)) 0 = ''h''" for b
    by (simp_all add: demo_defs)
  show ?thesis
    using send_empty_batch [OF pk, of "Some []"] send_empty_batch [OF pk, of "Some [emptyGroup, emptyGroup]"]
      1 2 c by metis
qed

text \<open>
  C4 as stated fails on a batch of one instruction set without instructions: \<^verbatim>\<open>send\<close>
  does not throw, and it has called the connection and the wallet.
\<close>

theorem send_all_empty_counterexample:
  "instructionSets (demoSender (Some [emptyGroup]) quietConnection 3 True)
       = Some [\<lparr>signers = [], instructions = []\<rparr>]
   \<and> fst (send (demoSender (Some [emptyGroup]) quietConnection 3 True)) = None
   \<and> trace (snd (send (demoSender (Some [emptyGroup]) quietConnection 3 True)))
       = [EvGetSlot 7, EvGetLatestBlockhash ''h'', EvSignAllTransactions []]"
  by (simp add: send_def demo_defs forLoop.simps getSlotAndCurrentBlockHash_eq initialState_def
      emit_def Let_def)

subsection \<open>C5\<close>

text \<open>
  C5. In a run of \<^verbatim>\<open>send\<close> with the failure callback registered, let the round at index
  \<open>i\<close> end with \<open>retry\<close> rejecting with the error \<open>e\<close> in the state \<open>st1\<close>. Then the
  whole trace of the run holds one call of the failure callback for the index \<open>i\<close>, and
  its arguments are, in this order: the error; \<open>i\<close>; the value \<open>n\<close> of \<open>successfulItems\<close>
  at that moment, which is the number of submissions accepted so far; and the instruction
  set at position \<open>n - 1\<close> of the list handed to the sender, that is \<open>sets ! (n - 1)\<close>
  when \<open>n\<close> is at least 1 and at most the length of the list, and \<^verbatim>\<open>undefined\<close> (here
  \<open>None\<close>) otherwise.
\<close>

theorem failure_callback_arguments:
  assumes "publicKey (wallet s) \<noteq> None" and "instructionSets s = Some sets" and "sets \<noteq> []"
    and "loopHead s sets i st" and "i < length (signedTXs st)"
    and "retry s sets i (maxSigningAttempts (configuration s)) 1
           (st\<lparr>tx := Some (signedTXs st ! i), retryNumber := 0\<rparr>) = (Some e, st1)"
    and "onFailureCallback s"
  shows "filter (\<lambda>f. fst (snd f) = i) (failureCalls (trace (snd (send s))))
           = [(e, i, successfulItems st1,
               if 0 < successfulItems st1 \<and> successfulItems st1 \<le> length sets
               then Some (sets ! (successfulItems st1 - 1)) else None)]
       \<and> successfulItems st1 = length (confirmedIndices (trace st1))"
  using failure_call_at [OF assms] by (simp add: arrayGet_before)

theorem failure_callback_arguments_witness:
  "filter (\<lambda>f. fst (snd f) = 2)
     (failureCalls (trace (snd (send
        (demoSender (Some [groupA, groupB, groupC]) firstOnlyConnection 3 False)))))
     = [(ResultErr ''misc-error'', 2, 1, Some groupA)]"
proof -
  let ?s = "demoSender (Some [groupA, groupB, groupC]) firstOnlyConnection 3 False"
  let ?sets = "[groupA, groupB, groupC]"
  let ?ha = "startState ?s ?sets"
  let ?sa = "?ha\<lparr>tx := Some (signedTXs ?ha ! 0), retryNumber := 0\<rparr>"
  let ?hb = "?sa\<lparr>retryNumber := Suc (retryNumber ?sa), sendCalls := Suc (sendCalls ?sa),
         successfulItems := Suc (successfulItems ?sa),
         trace := trace ?sa @ [EvSendSignedTransaction 0 (tx ?sa) (Accepted 7)]
            @ (if onProgressCallback ?s then [EvProgress 0] else [])\<rparr>"
  let ?sb = "?hb\<lparr>tx := Some (signedTXs ?hb ! Suc 0), retryNumber := 0\<rparr>"
  let ?fb = "?sb\<lparr>retryNumber := Suc (retryNumber ?sb), sendCalls := Suc (sendCalls ?sb),
         trace := trace ?sb @ [EvSendSignedTransaction (Suc 0) (tx ?sb) (Failed ''misc-error'')]\<rparr>"
  let ?hc = "catchError ?s ?sets (Suc 0) (ResultErr ''misc-error'') ?fb"
  let ?sc = "?hc\<lparr>tx := Some (signedTXs ?hc ! Suc (Suc 0)), retryNumber := 0\<rparr>"
  let ?fc = "?sc\<lparr>retryNumber := Suc (retryNumber ?sc), sendCalls := Suc (sendCalls ?sc),
         trace := trace ?sc
           @ [EvSendSignedTransaction (Suc (Suc 0)) (tx ?sc) (Failed ''misc-error'')]\<rparr>"
  have h: "publicKey (wallet ?s) \<noteq> None" "instructionSets ?s = Some ?sets" "?sets \<noteq> []"
    "onFailureCallback ?s" "\<not> abortOnFailure (configuration ?s)"
    by (simp_all add: demo_defs)
  have len: "length (signedTXs ?ha) = 3" "sendCalls ?ha = 0" "pendingHook ?ha = None"
    "slot ?ha = 7" "successfulItems ?ha = 0"
    by (simp_all add: startState_def initialState_def demo_defs firstOnlyConnection_def)
  have ra: "retry ?s ?sets 0 (maxSigningAttempts (configuration ?s)) 1 ?sa = (None, ?hb)"
  proof -
    have "sendSignedTransaction (connection ?s) (sendCalls ?sa) (tx ?sa) = Accepted 7"
      using len(2) by (simp add: demoSender_def firstOnlyConnection_def)
    then have "attemptFn ?s ?sets 0 ?sa = (Resolved, ?hb)"
      using len(3,4) by (intro attemptFn_accepted_plain) simp_all
    then show ?thesis
      using retry_resolved [of ?s ?sets 0 ?sa] by simp
  qed
  have la: "0 < length (signedTXs ?ha)"
    using len(1) by simp
  have hb: "loopHead ?s ?sets (Suc 0) ?hb"
    using loopHead.start la ra by (rule loopHead.resolved)
  have lb: "Suc 0 < length (signedTXs ?hb)"
    using len(1) by simp
  have rb: "retry ?s ?sets (Suc 0) (maxSigningAttempts (configuration ?s)) 1 ?sb
      = (Some (ResultErr ''misc-error''), ?fb)"
  proof -
    have "sendSignedTransaction (connection ?s) (sendCalls ?sb) (tx ?sb) = Failed ''misc-error''"
      using len(2) by (simp add: demoSender_def firstOnlyConnection_def)
    then have "attemptFn ?s ?sets (Suc 0) ?sb = (Bailed (ResultErr ''misc-error''), ?fb)"
      using len(3) attemptFn_failed [of ?s ?sb "''misc-error''" ?sets "Suc 0"] by simp
    then show ?thesis
      using retry_bailed [of ?s ?sets "Suc 0" ?sb "ResultErr ''misc-error''"] by simp
  qed
  have hc: "loopHead ?s ?sets (Suc (Suc 0)) ?hc"
    using hb lb rb h(5) by (rule loopHead.failed)
  have lc: "Suc (Suc 0) < length (signedTXs ?hc)"
    using len(1) by simp
  have rc: "retry ?s ?sets (Suc (Suc 0)) (maxSigningAttempts (configuration ?s)) 1 ?sc
      = (Some (ResultErr ''misc-error''), ?fc)"
  proof -
    have "sendSignedTransaction (connection ?s) (sendCalls ?sc) (tx ?sc) = Failed ''misc-error''"
      using len(2) by (simp add: demoSender_def firstOnlyConnection_def)
    moreover have "pendingHook ?sc = None"
      using len(3) by simp
    ultimately have "attemptFn ?s ?sets (Suc (Suc 0)) ?sc = (Bailed (ResultErr ''misc-error''), ?fc)"
      using attemptFn_failed [of ?s ?sc "''misc-error''" ?sets "Suc (Suc 0)"] by simp
    then show ?thesis
      using retry_bailed [of ?s ?sets "Suc (Suc 0)" ?sc "ResultErr ''misc-error''"] by simp
  qed
  show ?thesis
    using failure_callback_arguments [OF h(1,2,3) hc lc rc h(4)] len(5)
    by (simp add: numeral_2_eq_2)
qed

subsection \<open>C6\<close>

text \<open>
  C6 on the code: a batch whose first instruction set has no instructions, on a network
  where the first submission is accepted 200 slots later. The array starts as the
  transactions of \<open>groupA\<close> and \<open>groupB\<close>. The rebuild from index 1 reads the list of
  instruction sets, not the list without the empty ones: index 1, which held the
  transaction of \<open>groupB\<close>, gets the instructions of \<open>groupA\<close>, and a new index 2 gets
  those of \<open>groupB\<close>. The instructions of \<open>groupA\<close> are submitted twice.
\<close>

theorem rebuild_after_empty_group:
  "map txInstructions
     (signedTXs (startState (demoSender (Some [emptyGroup, groupA, groupB]) driftConnection 3 True)
        [emptyGroup, groupA, groupB]))
     = [instructions groupA, instructions groupB]
   \<and> map txInstructions
       (signedTXs (snd (send (demoSender (Some [emptyGroup, groupA, groupB]) driftConnection 3 True))))
     = [instructions groupA, instructions groupA, instructions groupB]
   \<and> submitted (trace (snd (send (demoSender (Some [emptyGroup, groupA, groupB]) driftConnection 3 True))))
     = [(0, instructions groupA), (1, instructions groupA), (2, instructions groupB)]"
  by (simp add: run_defs startState_def demo_defs driftConnection_def numeral_3_eq_3
      submitted_def submittedOf_def)

subsection \<open>C7\<close>

text \<open>
  C7. In a run of \<^verbatim>\<open>send\<close>, let the round at index \<open>i\<close> end with \<open>retry\<close> rejecting.
  With \<open>abortOnFailure\<close> the run ends in the \<^verbatim>\<open>catch\<close> block of this round, and its trace
  holds no submission, no call of the progress callback and no call of the failure
  callback for an index above \<open>i\<close>. Without \<open>abortOnFailure\<close> the run is at the head of
  the loop again, with the index \<open>i + 1\<close>, and when the array has this index its
  transaction is submitted.
\<close>

theorem abort_on_failure:
  assumes "publicKey (wallet s) \<noteq> None" and "instructionSets s = Some sets" and "sets \<noteq> []"
    and "loopHead s sets i st" and "i < length (signedTXs st)"
    and "retry s sets i (maxSigningAttempts (configuration s)) 1
           (st\<lparr>tx := Some (signedTXs st ! i), retryNumber := 0\<rparr>) = (Some e, st1)"
  shows "if abortOnFailure (configuration s)
         then snd (send s) = catchError s sets i e st1
            \<and> (\<forall>k \<in> set (eventIndices (trace (snd (send s)))). k \<le> i)
         else loopHead s sets (Suc i) (catchError s sets i e st1)
            \<and> snd (send s) = forLoop s sets (Suc i) (catchError s sets i e st1)
            \<and> (Suc i < length (signedTXs st1) \<longrightarrow>
                 submissions (Suc i) (trace (snd (send s))) \<noteq> [])"
proof (cases "abortOnFailure (configuration s)")
  case True
  have fin: "snd (send s) = forLoop s sets i st"
    using send_runs [OF assms(1,2,3)] loopHead_final [OF assms(4)] by simp
  have 1: "snd (send s) = catchError s sets i e st1"
    using fin forLoop_step [OF assms(5,6)] True by simp
  obtain e1 e2 where t: "set (eventIndices e1) \<subseteq> {i}"
      "trace (forLoop s sets 0 (startState s sets))
          = trace st @ e1 @ failureEvent s sets i (Some e) st1 @ e2"
      "e2 = []"
    using round_trace [OF assms(4,5,6)] True by blast
  have b: "\<forall>k \<in> set (eventIndices (trace st)). k < i"
    using loopHead_headInv [OF assms(4)] by (simp add: headInv_def)
  have "\<forall>k \<in> set (eventIndices (trace (forLoop s sets 0 (startState s sets)))). k \<le> i"
    using t b by (auto simp: failureEvent_def)
  then show ?thesis
    using True 1 send_runs [OF assms(1,2,3)] by simp
next
  case False
  let ?st2 = "catchError s sets i e st1"
  have h: "loopHead s sets (Suc i) ?st2"
    using assms(4,5,6) False by (rule loopHead.failed)
  have fin: "snd (send s) = forLoop s sets (Suc i) ?st2"
    using send_runs [OF assms(1,2,3)] loopHead_final [OF h] by simp
  have "submissions (Suc i) (trace (snd (send s))) \<noteq> []" if "Suc i < length (signedTXs st1)"
  proof -
    have "Suc i < length (signedTXs ?st2)" using that by simp
    then obtain r rest where
      "trace (forLoop s sets (Suc i) ?st2) =
         trace ?st2 @ EvSendSignedTransaction (Suc i) (Some (signedTXs ?st2 ! Suc i)) r # rest"
      using forLoop_first_event by blast
    then show ?thesis using fin by simp
  qed
  then show ?thesis using False h fin by simp
qed

theorem abort_on_failure_witness:
  "eventIndices (trace (snd (send (demoSender (Some [groupA, groupB]) rejectingConnection 3 True))))
     = [0, 0]
   \<and> loopHead (demoSender (Some [groupA, groupB]) rejectingConnection 3 False) [groupA, groupB]
       (Suc 0)
       (catchError (demoSender (Some [groupA, groupB]) rejectingConnection 3 False)
          [groupA, groupB] 0 (ResultErr ''misc-error'')
          (snd (attemptFn (demoSender (Some [groupA, groupB]) rejectingConnection 3 False)
                  [groupA, groupB] 0
                  ((startState (demoSender (Some [groupA, groupB]) rejectingConnection 3 False)
                      [groupA, groupB])
                   \<lparr>tx := Some (signedTXs (startState
                            (demoSender (Some [groupA, groupB]) rejectingConnection 3 False)
                            [groupA, groupB]) ! 0),
                     retryNumber := 0\<rparr>))))
   \<and> submissions (Suc 0)
        (trace (snd (send (demoSender (Some [groupA, groupB]) rejectingConnection 3 False)))) \<noteq> []"
proof -
  have h: "publicKey (wallet (demoSender (Some [groupA, groupB]) rejectingConnection 3 b)) \<noteq> None"
    "instructionSets (demoSender (Some [groupA, groupB]) rejectingConnection 3 b)
       = Some [groupA, groupB]"
    "[groupA, groupB] \<noteq> []" for b
    by (simp_all add: demo_defs)
  let ?hd = "\<lambda>b. startState (demoSender (Some [groupA, groupB]) rejectingConnection 3 b)
                [groupA, groupB]"
  let ?sa = "\<lambda>b. (?hd b)\<lparr>tx := Some (signedTXs (?hd b) ! 0), retryNumber := 0\<rparr>"
  have lt: "0 < length (signedTXs (?hd b))" for b
    by (simp add: startState_def demo_defs)
  have sr: "sendSignedTransaction (connection (demoSender (Some [groupA, groupB]) rejectingConnection 3 b))
              (sendCalls (?sa b)) (tx (?sa b)) = Failed ''misc-error''" for b
    by (simp add: demo_defs rejectingConnection_def)
  have pn: "pendingHook (?sa b) = None" for b
    by (simp add: startState_def initialState_def)
  have a: "attemptFn (demoSender (Some [groupA, groupB]) rejectingConnection 3 b)
              [groupA, groupB] 0 (?sa b)
            = (Bailed (ResultErr ''misc-error''),
               (?sa b)\<lparr>retryNumber := Suc (retryNumber (?sa b)), sendCalls := Suc (sendCalls (?sa b)),
                  trace := trace (?sa b) @ [EvSendSignedTransaction 0 (tx (?sa b)) (Failed ''misc-error'')]\<rparr>)"
    for b
    using attemptFn_failed [OF sr [of b] pn [of b], of "[groupA, groupB]" 0] by simp
  have r: "retry (demoSender (Some [groupA, groupB]) rejectingConnection 3 b) [groupA, groupB] 0
             (maxSigningAttempts (configuration (demoSender (Some [groupA, groupB]) rejectingConnection 3 b)))
             1 (?sa b)
      = (Some (ResultErr ''misc-error''),
         snd (attemptFn (demoSender (Some [groupA, groupB]) rejectingConnection 3 b)
                [groupA, groupB] 0 (?sa b)))" for b
    using retry_bailed [of _ _ _ "?sa b" "ResultErr ''misc-error''"] a [of b] by simp
  have ab: "abortOnFailure (configuration (demoSender (Some [groupA, groupB]) rejectingConnection 3 b)) = b"
    for b by (simp add: demo_defs)
  have l2: "Suc 0 < length (signedTXs (snd (attemptFn (demoSender (Some [groupA, groupB])
      rejectingConnection 3 False) [groupA, groupB] 0 (?sa False))))"
    unfolding a by (simp add: startState_def demo_defs)
  have t: "eventIndices (trace (catchError (demoSender (Some [groupA, groupB]) rejectingConnection 3 True)
       [groupA, groupB] 0 (ResultErr ''misc-error'')
       (snd (attemptFn (demoSender (Some [groupA, groupB]) rejectingConnection 3 True)
                [groupA, groupB] 0 (?sa True))))) = [0, 0]"
    unfolding a by (simp add: catchError_def emit_def startState_def initialState_def demoSender_def)
  have T: "snd (send (demoSender (Some [groupA, groupB]) rejectingConnection 3 True))
      = catchError (demoSender (Some [groupA, groupB]) rejectingConnection 3 True)
          [groupA, groupB] 0 (ResultErr ''misc-error'')
          (snd (attemptFn (demoSender (Some [groupA, groupB]) rejectingConnection 3 True)
                  [groupA, groupB] 0 (?sa True)))"
    using abort_on_failure [OF h loopHead.start lt r, of True, unfolded ab if_True] by blast
  have F: "loopHead (demoSender (Some [groupA, groupB]) rejectingConnection 3 False) [groupA, groupB]
       (Suc 0)
       (catchError (demoSender (Some [groupA, groupB]) rejectingConnection 3 False)
          [groupA, groupB] 0 (ResultErr ''misc-error'')
          (snd (attemptFn (demoSender (Some [groupA, groupB]) rejectingConnection 3 False)
                  [groupA, groupB] 0 (?sa False))))
     \<and> submissions (Suc 0)
        (trace (snd (send (demoSender (Some [groupA, groupB]) rejectingConnection 3 False)))) \<noteq> []"
    using abort_on_failure [OF h loopHead.start lt r, of False, unfolded ab if_False] l2 by blast
  show ?thesis
    using F by (simp only: T t simp_thms)
qed

subsection \<open>C8\<close>

text \<open>
  C8. On a batch with a public key on the wallet and at least one instruction set, when
  every submission is accepted at a slot less than 150 above the slot fetched at the start
  and the progress callback is registered: \<^verbatim>\<open>send\<close> returns without throwing, the progress
  callback has been called once for every transaction, with 0, 1, ... in this order,
  every index has been accepted once, the failure callback has not been called, and
  \<open>successfulItems\<close> is the number of transactions. The transactions are the instruction
  sets that have instructions.
\<close>

theorem send_quiet_progress:
  assumes "publicKey (wallet s) \<noteq> None" and "instructionSets s = Some sets" and "sets \<noteq> []"
    and "onProgressCallback s"
    and "\<forall>k t. \<exists>c. sendSignedTransaction (connection s) k t = Accepted c
            \<and> c < getSlot (connection s) 0 + 150"
  shows "fst (send s) = None
       \<and> progressCalls (trace (snd (send s)))
           = [0..<length (filter (\<lambda>g. instructions g \<noteq> []) sets)]
       \<and> confirmedIndices (trace (snd (send s)))
           = [0..<length (filter (\<lambda>g. instructions g \<noteq> []) sets)]
       \<and> failureCalls (trace (snd (send s))) = []
       \<and> successfulItems (snd (send s)) = length (filter (\<lambda>g. instructions g \<noteq> []) sets)"
proof -
  have q: "\<forall>k t. \<exists>c. sendSignedTransaction (connection s) k t = Accepted c
             \<and> c < slot (startState s sets) + 150"
    using assms(5) by (simp add: startState_def)
  have st: "progressCalls (trace (startState s sets)) = []"
    "confirmedIndices (trace (startState s sets)) = []"
    "failureCalls (trace (startState s sets)) = []"
    "successfulItems (startState s sets) = 0"
    "length (signedTXs (startState s sets)) = length (filter (\<lambda>g. instructions g \<noteq> []) sets)"
    "pendingHook (startState s sets) = None"
    by (simp_all add: startState_def initialState_def)
  show ?thesis
    using forLoop_quiet [OF q assms(4) st(6), of sets 0] send_runs [OF assms(1,2,3)]
    by (simp add: st)
qed

theorem send_quiet_progress_witness:
  "fst (send (demoSender (Some [groupA, emptyGroup, groupB]) quietConnection 3 True)) = None
   \<and> progressCalls (trace (snd (send (demoSender (Some [groupA, emptyGroup, groupB])
        quietConnection 3 True)))) = [0, 1]
   \<and> successfulItems (snd (send (demoSender (Some [groupA, emptyGroup, groupB])
        quietConnection 3 True))) = 2"
proof -
  let ?s = "demoSender (Some [groupA, emptyGroup, groupB]) quietConnection 3 True"
  have h: "publicKey (wallet ?s) \<noteq> None"
    "instructionSets ?s = Some [groupA, emptyGroup, groupB]"
    "[groupA, emptyGroup, groupB] \<noteq> []"
    "onProgressCallback ?s"
    "\<forall>k t. \<exists>c. sendSignedTransaction (connection ?s) k t = Accepted c
        \<and> c < getSlot (connection ?s) 0 + 150"
    by (simp_all add: demo_defs)
  have n: "length (filter (\<lambda>g. instructions g \<noteq> []) [groupA, emptyGroup, groupB]) = 2"
    by (simp add: demo_defs)
  have u: "[0..<2] = [0, Suc 0]"
    by (simp add: upt_rec)
  show ?thesis
    using send_quiet_progress [OF h] unfolding n u by simp
qed

subsection \<open>C9\<close>

text \<open>
  C9. The rebuild leaves the entries of the array below its start index as they are, and
  so does the whole loop from an index \<open>i\<close> for the entries below \<open>i\<close>: a transaction
  that has been submitted is not rebuilt in a later round.

  The hook \<open>onRetry\<close> rebuilds when its error is a timeout and the slot it asks for is
  150 or more above the baseline; an attempt (with no hook pending) rebuilds when its
  submission is accepted at such a slot and the array has an index \<open>i + 1\<close>. In both
  cases the connection is asked once more for the slot and once for the blockhash, the two
  requests stand side by side in the trace, their two replies are the new \<open>slot\<close> and
  \<open>currentBlock\<close>, the re-sign callback follows at once, and the array is what the
  rebuild loop on this blockhash leaves, handed to the wallet when the loop has not
  thrown. In every other case slot, blockhash and array are unchanged and the connection
  has not been asked for a blockhash.
\<close>

theorem rebuild_frame_and_pair:
  "(\<forall>j. j < k \<and> j < length (signedTXs st) \<longrightarrow>
      signedTXs (snd (signAndRebuildTransactionsFromInstructionSets s sets k bh a st)) ! j
        = signedTXs st ! j)
   \<and> (\<forall>j. j < i \<and> j < length (signedTXs st) \<longrightarrow>
        signedTXs (forLoop s sets i st) ! j = signedTXs st ! j)
   \<and> (\<forall>st2. onRetry s sets i e a st = st2 \<longrightarrow>
        (if e = ResultErr ''timeout'' \<and> slot st + 150 \<le> getSlot (connection s) (slotCalls st)
         then slot st2 = getSlot (connection s) (Suc (slotCalls st))
            \<and> currentBlock st2 = getLatestBlockhash (connection s) (blockhashCalls st)
            \<and> slotCalls st2 = Suc (Suc (slotCalls st))
            \<and> blockhashCalls st2 = Suc (blockhashCalls st)
            \<and> (\<exists>rest. trace st2 = trace st
                   @ [EvGetSlot (getSlot (connection s) (slotCalls st)),
                      EvGetSlot (slot st2), EvGetLatestBlockhash (currentBlock st2)]
                   @ (if onReSignCallback s then [EvReSign a i] else []) @ rest
                 \<and> (rest = [] \<or> (\<exists>ts. rest = [EvSignAllTransactions ts])))
            \<and> signedTXs st2 =
                (case rebuildLoop (publicKey (wallet s)) sets (currentBlock st2) i (signedTXs st) of
                   (Some err, txs) \<Rightarrow> txs
                 | (None, rebuilt) \<Rightarrow>
                     take i rebuilt @ map (signInPlace (wallet s)) (drop i rebuilt))
         else slot st2 = slot st \<and> currentBlock st2 = currentBlock st
            \<and> signedTXs st2 = signedTXs st \<and> blockhashCalls st2 = blockhashCalls st))
   \<and> (\<forall>st2 c. pendingHook st = None
          \<and> sendSignedTransaction (connection s) (sendCalls st) (tx st) = Accepted c
          \<and> snd (attemptFn s sets i st) = st2 \<longrightarrow>
        (if slot st + 150 \<le> c \<and> Suc i < length (signedTXs st)
         then slot st2 = getSlot (connection s) (slotCalls st)
            \<and> currentBlock st2 = getLatestBlockhash (connection s) (blockhashCalls st)
            \<and> slotCalls st2 = Suc (slotCalls st)
            \<and> blockhashCalls st2 = Suc (blockhashCalls st)
            \<and> (\<exists>rest. trace st2 = trace st
                   @ [EvSendSignedTransaction i (tx st) (Accepted c)]
                   @ (if onProgressCallback s then [EvProgress i] else [])
                   @ [EvGetSlot (slot st2), EvGetLatestBlockhash (currentBlock st2)]
                   @ (if onReSignCallback s then [EvReSign 0 (Suc i)] else []) @ rest
                 \<and> (rest = [] \<or> (\<exists>ts. rest = [EvSignAllTransactions ts])))
            \<and> signedTXs st2 =
                (case rebuildLoop (publicKey (wallet s)) sets (currentBlock st2) (Suc i)
                        (signedTXs st) of
                   (Some err, txs) \<Rightarrow> txs
                 | (None, rebuilt) \<Rightarrow>
                     take (Suc i) rebuilt @ map (signInPlace (wallet s)) (drop (Suc i) rebuilt))
         else slot st2 = slot st \<and> currentBlock st2 = currentBlock st
            \<and> signedTXs st2 = signedTXs st \<and> slotCalls st2 = slotCalls st
            \<and> blockhashCalls st2 = blockhashCalls st))
   \<and> (\<forall>st2 ty. pendingHook st = None
          \<and> sendSignedTransaction (connection s) (sendCalls st) (tx st) = Failed ty
          \<and> snd (attemptFn s sets i st) = st2 \<longrightarrow>
        slot st2 = slot st \<and> currentBlock st2 = currentBlock st
          \<and> signedTXs st2 = signedTXs st \<and> slotCalls st2 = slotCalls st
          \<and> blockhashCalls st2 = blockhashCalls st)"
proof (intro conjI)
  show "\<forall>j. j < k \<and> j < length (signedTXs st) \<longrightarrow>
      signedTXs (snd (signAndRebuildTransactionsFromInstructionSets s sets k bh a st)) ! j
        = signedTXs st ! j"
    by (simp add: signAndRebuild_unchanged_below)
  show "\<forall>j. j < i \<and> j < length (signedTXs st) \<longrightarrow>
        signedTXs (forLoop s sets i st) ! j = signedTXs st ! j"
    using loopKeeps_forLoop [of i st s sets] unfolding loopKeeps_def by blast
  show "\<forall>st2. onRetry s sets i e a st = st2 \<longrightarrow>
        (if e = ResultErr ''timeout'' \<and> slot st + 150 \<le> getSlot (connection s) (slotCalls st)
         then slot st2 = getSlot (connection s) (Suc (slotCalls st))
            \<and> currentBlock st2 = getLatestBlockhash (connection s) (blockhashCalls st)
            \<and> slotCalls st2 = Suc (Suc (slotCalls st))
            \<and> blockhashCalls st2 = Suc (blockhashCalls st)
            \<and> (\<exists>rest. trace st2 = trace st
                   @ [EvGetSlot (getSlot (connection s) (slotCalls st)),
                      EvGetSlot (slot st2), EvGetLatestBlockhash (currentBlock st2)]
                   @ (if onReSignCallback s then [EvReSign a i] else []) @ rest
                 \<and> (rest = [] \<or> (\<exists>ts. rest = [EvSignAllTransactions ts])))
            \<and> signedTXs st2 =
                (case rebuildLoop (publicKey (wallet s)) sets (currentBlock st2) i (signedTXs st) of
                   (Some err, txs) \<Rightarrow> txs
                 | (None, rebuilt) \<Rightarrow>
                     take i rebuilt @ map (signInPlace (wallet s)) (drop i rebuilt))
         else slot st2 = slot st \<and> currentBlock st2 = currentBlock st
            \<and> signedTXs st2 = signedTXs st \<and> blockhashCalls st2 = blockhashCalls st)"
    unfolding onRetry_def Let_def
    by (auto simp: callGetSlot_eq getSlotAndCurrentBlockHash_eq signAndRebuild_eq
        split: prod.splits option.splits sum.splits)
  show "\<forall>st2 c. pendingHook st = None
          \<and> sendSignedTransaction (connection s) (sendCalls st) (tx st) = Accepted c
          \<and> snd (attemptFn s sets i st) = st2 \<longrightarrow>
        (if slot st + 150 \<le> c \<and> Suc i < length (signedTXs st)
         then slot st2 = getSlot (connection s) (slotCalls st)
            \<and> currentBlock st2 = getLatestBlockhash (connection s) (blockhashCalls st)
            \<and> slotCalls st2 = Suc (slotCalls st)
            \<and> blockhashCalls st2 = Suc (blockhashCalls st)
            \<and> (\<exists>rest. trace st2 = trace st
                   @ [EvSendSignedTransaction i (tx st) (Accepted c)]
                   @ (if onProgressCallback s then [EvProgress i] else [])
                   @ [EvGetSlot (slot st2), EvGetLatestBlockhash (currentBlock st2)]
                   @ (if onReSignCallback s then [EvReSign 0 (Suc i)] else []) @ rest
                 \<and> (rest = [] \<or> (\<exists>ts. rest = [EvSignAllTransactions ts])))
            \<and> signedTXs st2 =
                (case rebuildLoop (publicKey (wallet s)) sets (currentBlock st2) (Suc i)
                        (signedTXs st) of
                   (Some err, txs) \<Rightarrow> txs
                 | (None, rebuilt) \<Rightarrow>
                     take (Suc i) rebuilt @ map (signInPlace (wallet s)) (drop (Suc i) rebuilt))
         else slot st2 = slot st \<and> currentBlock st2 = currentBlock st
            \<and> signedTXs st2 = signedTXs st \<and> slotCalls st2 = slotCalls st
            \<and> blockhashCalls st2 = blockhashCalls st)"
    by (auto simp: attemptFn_eq Let_def landHook_none signAndRebuild_eq
        split: prod.splits option.splits sum.splits)
  show "\<forall>st2 ty. pendingHook st = None
          \<and> sendSignedTransaction (connection s) (sendCalls st) (tx st) = Failed ty
          \<and> snd (attemptFn s sets i st) = st2 \<longrightarrow>
        slot st2 = slot st \<and> currentBlock st2 = currentBlock st
          \<and> signedTXs st2 = signedTXs st \<and> slotCalls st2 = slotCalls st
          \<and> blockhashCalls st2 = blockhashCalls st"
    by (auto simp: attemptFn_eq Let_def landHook_none)
qed


theorem rebuild_frame_and_pair_witness:
  "signedTXs (snd (signAndRebuildTransactionsFromInstructionSets
       (demoSender (Some [groupA, groupB]) driftConnection 3 True) [groupA, groupB] 1 ''h1'' 0
       (startState (demoSender (Some [groupA, groupB]) driftConnection 3 True) [groupA, groupB]))) ! 0
     = \<lparr>feePayer = Some ''payer'', recentBlockhash = ''h0'',
        txInstructions = [TransactionInstruction 1],
        signatures = [Signer ''a'', Signer ''payer'']\<rparr>
   \<and> signedTXs (forLoop (demoSender (Some [groupA, groupB]) driftConnection 3 True)
        [groupA, groupB] 1
        (startState (demoSender (Some [groupA, groupB]) driftConnection 3 True) [groupA, groupB])) ! 0
     = \<lparr>feePayer = Some ''payer'', recentBlockhash = ''h0'',
        txInstructions = [TransactionInstruction 1],
        signatures = [Signer ''a'', Signer ''payer'']\<rparr>
   \<and> slot (onRetry (demoSender (Some [groupA]) driftTimeoutConnection 3 True) [groupA] 0
        (ResultErr ''timeout'') 1
        (startState (demoSender (Some [groupA]) driftTimeoutConnection 3 True) [groupA])) = 400
   \<and> currentBlock (onRetry (demoSender (Some [groupA]) driftTimeoutConnection 3 True) [groupA] 0
        (ResultErr ''timeout'') 1
        (startState (demoSender (Some [groupA]) driftTimeoutConnection 3 True) [groupA])) = ''h1''
   \<and> slotCalls (onRetry (demoSender (Some [groupA]) driftTimeoutConnection 3 True) [groupA] 0
        (ResultErr ''timeout'') 1
        (startState (demoSender (Some [groupA]) driftTimeoutConnection 3 True) [groupA])) = 3
   \<and> blockhashCalls (onRetry (demoSender (Some [groupA]) driftTimeoutConnection 3 True) [groupA] 0
        (ResultErr ''timeout'') 1
        (startState (demoSender (Some [groupA]) driftTimeoutConnection 3 True) [groupA])) = 2
   \<and> signedTXs (onRetry (demoSender (Some [groupA]) driftTimeoutConnection 3 True) [groupA] 0
        (ResultErr ''timeout'') 1
        (startState (demoSender (Some [groupA]) driftTimeoutConnection 3 True) [groupA]))
     = [\<lparr>feePayer = Some ''payer'', recentBlockhash = ''h1'',
         txInstructions = [TransactionInstruction 1],
         signatures = [Signer ''a'', Signer ''payer'']\<rparr>]
   \<and> slot (snd (attemptFn (demoSender (Some [groupA, groupB]) driftConnection 3 True)
        [groupA, groupB] 0
        ((startState (demoSender (Some [groupA, groupB]) driftConnection 3 True) [groupA, groupB])
         \<lparr>tx := Some (signedTXs (startState (demoSender (Some [groupA, groupB]) driftConnection
                  3 True) [groupA, groupB]) ! 0),
           retryNumber := 0\<rparr>))) = 200
   \<and> currentBlock (snd (attemptFn (demoSender (Some [groupA, groupB]) driftConnection 3 True)
        [groupA, groupB] 0
        ((startState (demoSender (Some [groupA, groupB]) driftConnection 3 True) [groupA, groupB])
         \<lparr>tx := Some (signedTXs (startState (demoSender (Some [groupA, groupB]) driftConnection
                  3 True) [groupA, groupB]) ! 0),
           retryNumber := 0\<rparr>))) = ''h1''
   \<and> signedTXs (snd (attemptFn (demoSender (Some [groupA, groupB]) driftConnection 3 True)
        [groupA, groupB] 0
        ((startState (demoSender (Some [groupA, groupB]) driftConnection 3 True) [groupA, groupB])
         \<lparr>tx := Some (signedTXs (startState (demoSender (Some [groupA, groupB]) driftConnection
                  3 True) [groupA, groupB]) ! 0),
           retryNumber := 0\<rparr>)))
     = [\<lparr>feePayer = Some ''payer'', recentBlockhash = ''h0'',
         txInstructions = [TransactionInstruction 1],
         signatures = [Signer ''a'', Signer ''payer'']\<rparr>,
        \<lparr>feePayer = Some ''payer'', recentBlockhash = ''h1'',
         txInstructions = [TransactionInstruction 2, TransactionInstruction 3],
         signatures = [Signer ''payer'']\<rparr>]"
proof -
  let ?s = "demoSender (Some [groupA, groupB]) driftConnection 3 True"
  let ?hd = "startState ?s [groupA, groupB]"
  let ?sa = "?hd\<lparr>tx := Some (signedTXs ?hd ! 0), retryNumber := 0\<rparr>"
  let ?q = "demoSender (Some [groupA]) driftTimeoutConnection 3 True"
  let ?hq = "startState ?q [groupA]"
  have l: "(0::nat) < 1 \<and> 0 < length (signedTXs ?hd)"
    by (simp add: startState_def demo_defs)
  have v: "signedTXs ?hd
     = [\<lparr>feePayer = Some ''payer'', recentBlockhash = ''h0'',
         txInstructions = [TransactionInstruction 1],
         signatures = [Signer ''a'', Signer ''payer'']\<rparr>,
        \<lparr>feePayer = Some ''payer'', recentBlockhash = ''h0'',
         txInstructions = [TransactionInstruction 2, TransactionInstruction 3],
         signatures = [Signer ''payer'']\<rparr>]"
    by (simp add: startState_def demo_defs driftConnection_def transactionOf_def partialSign_def)
  have frame: "signedTXs (snd (signAndRebuildTransactionsFromInstructionSets ?s [groupA, groupB] 1 ''h1'' 0 ?hd)) ! 0
      = signedTXs ?hd ! 0
    \<and> signedTXs (forLoop ?s [groupA, groupB] 1 ?hd) ! 0 = signedTXs ?hd ! 0"
    using rebuild_frame_and_pair [of 1 ?hd ?s "[groupA, groupB]" "''h1''" 0 1] l by blast
  have cq: "ResultErr ''timeout'' = ResultErr ''timeout''
              \<and> slot ?hq + 150 \<le> getSlot (connection ?q) (slotCalls ?hq)"
    by (simp add: startState_def initialState_def demo_defs driftTimeoutConnection_def)
  have vq: "getSlot (connection ?q) (Suc (slotCalls ?hq)) = 400"
    "getLatestBlockhash (connection ?q) (blockhashCalls ?hq) = ''h1''"
    "Suc (Suc (slotCalls ?hq)) = 3" "Suc (blockhashCalls ?hq) = 2"
    by (simp_all add: startState_def initialState_def demo_defs driftTimeoutConnection_def)
  have rq: "(case rebuildLoop (publicKey (wallet ?q)) [groupA] ''h1'' 0 (signedTXs ?hq) of
               (Some err, txs) \<Rightarrow> txs
             | (None, rebuilt) \<Rightarrow> take 0 rebuilt @ map (signInPlace (wallet ?q)) (drop 0 rebuilt))
      = [\<lparr>feePayer = Some ''payer'', recentBlockhash = ''h1'',
           txInstructions = [TransactionInstruction 1],
           signatures = [Signer ''a'', Signer ''payer'']\<rparr>]"
    by (simp add: rebuildLoop.simps startState_def demo_defs driftTimeoutConnection_def
        buildTransaction_def transactionOf_def partialSign_def arraySet_def)
  have hook: "slot (onRetry ?q [groupA] 0 (ResultErr ''timeout'') 1 ?hq) = 400
      \<and> currentBlock (onRetry ?q [groupA] 0 (ResultErr ''timeout'') 1 ?hq) = ''h1''
      \<and> slotCalls (onRetry ?q [groupA] 0 (ResultErr ''timeout'') 1 ?hq) = 3
      \<and> blockhashCalls (onRetry ?q [groupA] 0 (ResultErr ''timeout'') 1 ?hq) = 2
      \<and> signedTXs (onRetry ?q [groupA] 0 (ResultErr ''timeout'') 1 ?hq)
        = [\<lparr>feePayer = Some ''payer'', recentBlockhash = ''h1'',
             txInstructions = [TransactionInstruction 1],
             signatures = [Signer ''a'', Signer ''payer'']\<rparr>]"
    using rebuild_frame_and_pair [where st = ?hq and s = ?q and sets = "[groupA]" and i = 0
        and e = "ResultErr ''timeout''" and a = 1, THEN conjunct2, THEN conjunct2, THEN conjunct1,
        rule_format, OF refl, unfolded if_P [OF cq]]
    unfolding vq using rq by simp
  have ca: "pendingHook ?sa = None
      \<and> sendSignedTransaction (connection ?s) (sendCalls ?sa) (tx ?sa) = Accepted 200
      \<and> snd (attemptFn ?s [groupA, groupB] 0 ?sa) = snd (attemptFn ?s [groupA, groupB] 0 ?sa)"
    by (simp add: startState_def initialState_def demo_defs driftConnection_def)
  have da: "slot ?sa + 150 \<le> 200 \<and> Suc 0 < length (signedTXs ?sa)"
    by (simp add: startState_def initialState_def demo_defs driftConnection_def)
  have va: "getSlot (connection ?s) (slotCalls ?sa) = 200"
    "getLatestBlockhash (connection ?s) (blockhashCalls ?sa) = ''h1''"
    by (simp_all add: startState_def initialState_def demo_defs driftConnection_def)
  have ra: "(case rebuildLoop (publicKey (wallet ?s)) [groupA, groupB] ''h1'' (Suc 0) (signedTXs ?sa) of
               (Some err, txs) \<Rightarrow> txs
             | (None, rebuilt) \<Rightarrow>
                 take (Suc 0) rebuilt @ map (signInPlace (wallet ?s)) (drop (Suc 0) rebuilt))
      = [\<lparr>feePayer = Some ''payer'', recentBlockhash = ''h0'',
           txInstructions = [TransactionInstruction 1],
           signatures = [Signer ''a'', Signer ''payer'']\<rparr>,
         \<lparr>feePayer = Some ''payer'', recentBlockhash = ''h1'',
           txInstructions = [TransactionInstruction 2, TransactionInstruction 3],
           signatures = [Signer ''payer'']\<rparr>]"
    by (simp add: rebuildLoop.simps startState_def initialState_def demo_defs driftConnection_def
        buildTransaction_def transactionOf_def partialSign_def arraySet_def)
  have att: "slot (snd (attemptFn ?s [groupA, groupB] 0 ?sa)) = 200
      \<and> currentBlock (snd (attemptFn ?s [groupA, groupB] 0 ?sa)) = ''h1''
      \<and> signedTXs (snd (attemptFn ?s [groupA, groupB] 0 ?sa))
        = [\<lparr>feePayer = Some ''payer'', recentBlockhash = ''h0'',
             txInstructions = [TransactionInstruction 1],
             signatures = [Signer ''a'', Signer ''payer'']\<rparr>,
           \<lparr>feePayer = Some ''payer'', recentBlockhash = ''h1'',
             txInstructions = [TransactionInstruction 2, TransactionInstruction 3],
             signatures = [Signer ''payer'']\<rparr>]"
    using rebuild_frame_and_pair [where st = ?sa and s = ?s and sets = "[groupA, groupB]" and i = 0,
        THEN conjunct2, THEN conjunct2, THEN conjunct2, THEN conjunct1,
        rule_format, OF ca, unfolded if_P [OF da]]
    unfolding va using ra by simp
  show ?thesis
    using frame hook att unfolding v by simp
qed

subsection \<open>C10\<close>

text \<open>
  C10. In a run of \<^verbatim>\<open>send\<close> with the failure callback registered, let the round at index
  \<open>i\<close> end with \<open>retry\<close> rejecting, while no submission has been accepted up to there.
  Then \<open>successfulItems\<close> is 0 and the failure callback is called with 0 as its third
  argument and with \<^verbatim>\<open>undefined\<close> (here \<open>None\<close>) as its fourth: the element at position -1
  of the list of instruction sets, not an instruction set.
\<close>

theorem failure_before_any_success:
  assumes "publicKey (wallet s) \<noteq> None" and "instructionSets s = Some sets" and "sets \<noteq> []"
    and "loopHead s sets i st" and "i < length (signedTXs st)"
    and "retry s sets i (maxSigningAttempts (configuration s)) 1
           (st\<lparr>tx := Some (signedTXs st ! i), retryNumber := 0\<rparr>) = (Some e, st1)"
    and "onFailureCallback s"
    and "confirmedIndices (trace st1) = []"
  shows "successfulItems st1 = 0
       \<and> arrayGet sets (int (successfulItems st1) - 1) = None
       \<and> filter (\<lambda>f. fst (snd f) = i) (failureCalls (trace (snd (send s)))) = [(e, i, 0, None)]"
proof -
  have z: "successfulItems st1 = 0"
    using failure_call_at [OF assms(1-7)] assms(8) by simp
  have n: "arrayGet sets (int 0 - 1) = None"
    by (simp add: arrayGet_def)
  show ?thesis
    using failure_call_at [OF assms(1-7)] z n by simp
qed

theorem failure_before_any_success_witness:
  "filter (\<lambda>f. fst (snd f) = 0)
     (failureCalls (trace (snd (send (demoSender (Some [groupA, groupB]) rejectingConnection 1 False)))))
     = [(ResultErr ''misc-error'', 0, 0, None)]"
proof -
  let ?s = "demoSender (Some [groupA, groupB]) rejectingConnection 1 False"
  let ?hd = "startState ?s [groupA, groupB]"
  let ?sa = "?hd\<lparr>tx := Some (signedTXs ?hd ! 0), retryNumber := 0\<rparr>"
  have h: "publicKey (wallet ?s) \<noteq> None" "instructionSets ?s = Some [groupA, groupB]"
    "[groupA, groupB] \<noteq> []" "onFailureCallback ?s"
    by (simp_all add: demo_defs)
  have lt: "0 < length (signedTXs ?hd)"
    by (simp add: startState_def demo_defs)
  have f: "sendSignedTransaction (connection ?s) (sendCalls ?sa) (tx ?sa) = Failed ''misc-error''"
    by (simp add: demo_defs rejectingConnection_def)
  then have "fst (attemptFn ?s [groupA, groupB] 0 ?sa) = Bailed (ResultErr ''misc-error'')"
    by (simp add: attemptFn_failed_outcome)
  then have r: "retry ?s [groupA, groupB] 0 (maxSigningAttempts (configuration ?s)) 1 ?sa
      = (Some (ResultErr ''misc-error''), snd (attemptFn ?s [groupA, groupB] 0 ?sa))"
    by (rule retry_bailed)
  have c: "confirmedIndices (trace (snd (attemptFn ?s [groupA, groupB] 0 ?sa))) = []"
    using f by (simp add: attemptFn_projections startState_def initialState_def)
  show ?thesis
    using failure_before_any_success [OF h(1,2,3) loopHead.start lt r h(4) c] by simp
qed

end
